theory Spec2Isabelle
  imports Main "HOL-Library.Word" "HOL-Library.Finite_Map" "HOL-Library.Sublist"
    "HOL-Library.Signed_Division"
begin

unbundle bit_operations_syntax

section \<open>Server: data model (kvs/server/main.go)\<close>

text \<open>
  Transaction ids and the statistics counters are Go \<^verbatim>\<open>uint64\<close>, modelled as
  \<^typ>\<open>64 word\<close>.  A Go \<^verbatim>\<open>error\<close> built by \<^verbatim>\<open>errors.New\<close> is its message;
  the \<^verbatim>\<open>error\<close> interface value is \<^typ>\<open>string option\<close> with \<^verbatim>\<open>nil\<close> as
  \<^term>\<open>None\<close>.  A builtin Go map (which has \<^verbatim>\<open>len\<close>) is a finite map; a
  \<^verbatim>\<open>sync.Map\<close> (Load, Store, LoadOrStore, Delete only) is a partial function.
  \<^verbatim>\<open>Get\<close>, \<^verbatim>\<open>Put\<close> and \<^verbatim>\<open>Commit\<close> hold the service-wide mutex for their whole
  body; \<^verbatim>\<open>Abort\<close> does not take it.  Each handler is modelled as one state transformer
  on the \<^verbatim>\<open>KVService\<close>: the model covers the executions in which the handler calls do
  not overlap.  The fields \<^verbatim>\<open>prevStats\<close> and \<^verbatim>\<open>lastPrint\<close>, which only
  \<^verbatim>\<open>printStats\<close> uses, are left out.
\<close>

record Stats =
  puts :: "64 word"
  gets :: "64 word"
  commits :: "64 word"
  aborts :: "64 word"

record Operation =
  OpType :: string
  Key :: string
  Value :: string

record LockInfo =
  readHolders :: "(64 word, bool) fmap"
  writeHolder :: "64 word option"

definition NewLockInfo :: LockInfo where
  "NewLockInfo = \<lparr>readHolders = fmempty, writeHolder = None\<rparr>"

record KVService =
  mp :: "string \<rightharpoonup> string"
  locks :: "string \<rightharpoonup> LockInfo"
  transactions :: "64 word \<rightharpoonup> Operation list"
  stats :: Stats

definition NewKVService :: KVService where
  "NewKVService =
     \<lparr>mp = Map.empty, locks = Map.empty, transactions = Map.empty,
      stats = \<lparr>puts = 0, gets = 0, commits = 0, aborts = 0\<rparr>\<rparr>"

text \<open>\<^verbatim>\<open>sync.Map.LoadOrStore\<close>: the stored value if the key is present, else store
  and return the given one.\<close>

definition LoadOrStore :: "('k \<rightharpoonup> 'v) \<Rightarrow> 'k \<Rightarrow> 'v \<Rightarrow> 'v \<times> ('k \<rightharpoonup> 'v)" where
  "LoadOrStore m k v = (case m k of None \<Rightarrow> (v, m(k \<mapsto> v)) | Some x \<Rightarrow> (x, m))"

text \<open>\<^verbatim>\<open>len(m)\<close> and \<^verbatim>\<open>m[k]\<close> (zero value \<^verbatim>\<open>false\<close> when absent) of a
  \<^verbatim>\<open>map[uint64]bool\<close>.\<close>

definition len_map :: "('k, 'v) fmap \<Rightarrow> nat" where
  "len_map m = fcard (fmdom m)"

definition index_bool :: "('k, bool) fmap \<Rightarrow> 'k \<Rightarrow> bool" where
  "index_bool m k = (case fmlookup m k of None \<Rightarrow> False | Some b \<Rightarrow> b)"

section \<open>Server: lock manager\<close>

definition acquireReadLock :: "string \<Rightarrow> 64 word \<Rightarrow> KVService \<Rightarrow> string option \<times> KVService" where
  "acquireReadLock key txid kv =
     (let (lockInfo, locks1) = LoadOrStore (locks kv) key NewLockInfo;
          kv1 = kv\<lparr>locks := locks1\<rparr>
      in if writeHolder lockInfo \<noteq> None \<and> writeHolder lockInfo \<noteq> Some txid then
           (Some ''Cannot acquire Read Lock, key is currently write locked'', kv1)
         else if writeHolder lockInfo \<noteq> None \<and> writeHolder lockInfo = Some txid then
           (None, kv1)
         else
           (None, kv1\<lparr>locks := locks1(key \<mapsto>
              lockInfo\<lparr>readHolders := fmupd txid True (readHolders lockInfo)\<rparr>)\<rparr>))"

definition acquireWriteLock :: "string \<Rightarrow> 64 word \<Rightarrow> KVService \<Rightarrow> string option \<times> KVService" where
  "acquireWriteLock key txid kv =
     (let (lockInfo, locks1) = LoadOrStore (locks kv) key NewLockInfo;
          kv1 = kv\<lparr>locks := locks1\<rparr>
      in if writeHolder lockInfo \<noteq> None \<and> writeHolder lockInfo = Some txid then
           (None, kv1)
         else if writeHolder lockInfo \<noteq> None then
           (Some ''Cannot acquire Write Lock, key is currently write locked'', kv1)
         else if len_map (readHolders lockInfo) > 1 then
           (Some ''Cannot acquire Write Lock, key has multiple read locks'', kv1)
         else if len_map (readHolders lockInfo) = 1 \<and> \<not> index_bool (readHolders lockInfo) txid then
           (Some ''Cannot acquire Write Lock, key is read locked by another transaction'', kv1)
         else
           (None, kv1\<lparr>locks := locks1(key \<mapsto>
              lockInfo\<lparr>writeHolder := Some txid,
                       readHolders := fmdrop txid (readHolders lockInfo)\<rparr>)\<rparr>))"

text \<open>The body of the loop of \<^verbatim>\<open>releaseLocks\<close> for one operation of the log:
  what it does to the \<^verbatim>\<open>LockInfo\<close> it loads, and to the lock table.\<close>

definition release_lock :: "64 word \<Rightarrow> LockInfo \<Rightarrow> LockInfo" where
  "release_lock txid lockInfo =
     (let li1 = lockInfo\<lparr>readHolders := fmdrop txid (readHolders lockInfo)\<rparr>
      in if writeHolder li1 \<noteq> None \<and> writeHolder li1 = Some txid
         then li1\<lparr>writeHolder := None\<rparr> else li1)"

definition release_one :: "64 word \<Rightarrow> Operation \<Rightarrow> (string \<rightharpoonup> LockInfo) \<Rightarrow> (string \<rightharpoonup> LockInfo)" where
  "release_one txid opn lk =
     (case lk (Key opn) of
        None \<Rightarrow> lk
      | Some lockInfo \<Rightarrow> lk(Key opn \<mapsto> release_lock txid lockInfo))"

fun release_ops :: "64 word \<Rightarrow> Operation list \<Rightarrow> (string \<rightharpoonup> LockInfo) \<Rightarrow> (string \<rightharpoonup> LockInfo)" where
  "release_ops txid [] lk = lk"
| "release_ops txid (opn # operations) lk = release_ops txid operations (release_one txid opn lk)"

definition releaseLocks :: "64 word \<Rightarrow> KVService \<Rightarrow> KVService" where
  "releaseLocks txid kv =
     (let kv1 = (case transactions kv txid of
                   None \<Rightarrow> kv
                 | Some operations \<Rightarrow> kv\<lparr>locks := release_ops txid operations (locks kv)\<rparr>)
      in kv1\<lparr>transactions := (transactions kv1)(txid := None)\<rparr>)"

section \<open>Lock state of one key\<close>

text \<open>The lock state the manager works on for a key: the stored \<^verbatim>\<open>LockInfo\<close>, or the
  fresh one that \<^verbatim>\<open>LoadOrStore\<close> would create.\<close>

definition lock_of :: "KVService \<Rightarrow> string \<Rightarrow> LockInfo" where
  "lock_of kv key = (case locks kv key of None \<Rightarrow> NewLockInfo | Some li \<Rightarrow> li)"

text \<open>The set of read-lock holders of a key lock: the keys of \<^verbatim>\<open>readHolders\<close>.\<close>

definition readers :: "LockInfo \<Rightarrow> 64 word fset" where
  "readers li = fmdom (readHolders li)"

text \<open>The only value ever stored in \<^verbatim>\<open>readHolders\<close> is \<^verbatim>\<open>true\<close>.\<close>

definition holders_true :: "LockInfo \<Rightarrow> bool" where
  "holders_true li = fmpred (\<lambda>t b. b) (readHolders li)"

section \<open>Server: RPC handlers\<close>

text \<open>What a call returns: a value, an error with its message, or a runtime panic.\<close>

datatype 'a result = Ok 'a | Err string | Panic string

definition add_aborts :: "KVService \<Rightarrow> KVService" where
  "add_aborts kv = kv\<lparr>stats := (stats kv)\<lparr>aborts := aborts (stats kv) + 1\<rparr>\<rparr>"

definition add_gets :: "KVService \<Rightarrow> KVService" where
  "add_gets kv = kv\<lparr>stats := (stats kv)\<lparr>gets := gets (stats kv) + 1\<rparr>\<rparr>"

definition add_puts :: "KVService \<Rightarrow> KVService" where
  "add_puts kv = kv\<lparr>stats := (stats kv)\<lparr>puts := puts (stats kv) + 1\<rparr>\<rparr>"

definition add_commits :: "KVService \<Rightarrow> KVService" where
  "add_commits kv = kv\<lparr>stats := (stats kv)\<lparr>commits := commits (stats kv) + 1\<rparr>\<rparr>"

text \<open>The first step of \<^verbatim>\<open>Get\<close> and \<^verbatim>\<open>Put\<close>: store an empty log for an unseen
  transaction.\<close>

definition ensure_txn :: "64 word \<Rightarrow> KVService \<Rightarrow> KVService" where
  "ensure_txn txid kv =
     (if transactions kv txid = None
      then kv\<lparr>transactions := (transactions kv)(txid \<mapsto> [])\<rparr> else kv)"

text \<open>Appending to the log loads the entry and asserts its type; on a missing entry the
  type assertion on the nil interface panics.\<close>

definition append_op :: "64 word \<Rightarrow> Operation \<Rightarrow> KVService \<Rightarrow> KVService option" where
  "append_op txid opn kv =
     (case transactions kv txid of
        None \<Rightarrow> None
      | Some operations \<Rightarrow>
          Some (kv\<lparr>transactions := (transactions kv)(txid \<mapsto> operations @ [opn])\<rparr>))"

definition KVService_Get :: "string \<Rightarrow> 64 word \<Rightarrow> KVService \<Rightarrow> string result \<times> KVService" where
  "KVService_Get key txid kv =
     (let kv1 = ensure_txn txid kv;
          (err, kv2) = acquireReadLock key txid kv1
      in case err of
           Some e \<Rightarrow> (Err e, add_aborts (releaseLocks txid kv2))
         | None \<Rightarrow>
             (case append_op txid \<lparr>OpType = ''GET'', Key = key, Value = ''''\<rparr> kv2 of
                None \<Rightarrow> (Panic ''interface conversion: interface {} is nil, not []main.Operation'', kv2)
              | Some kv3 \<Rightarrow>
                  (let val = (case mp kv3 key of Some v \<Rightarrow> v | None \<Rightarrow> '''')
                   in (Ok val, add_gets kv3))))"

definition KVService_Put :: "string \<Rightarrow> string \<Rightarrow> 64 word \<Rightarrow> KVService \<Rightarrow> unit result \<times> KVService" where
  "KVService_Put key val txid kv =
     (let kv1 = ensure_txn txid kv;
          (err, kv2) = acquireWriteLock key txid kv1
      in case err of
           Some e \<Rightarrow> (Err e, add_aborts (releaseLocks txid kv2))
         | None \<Rightarrow>
             (case append_op txid \<lparr>OpType = ''PUT'', Key = key, Value = val\<rparr> kv2 of
                None \<Rightarrow> (Panic ''interface conversion: interface {} is nil, not []main.Operation'', kv2)
              | Some kv3 \<Rightarrow> (Ok (), add_puts kv3)))"

text \<open>The loop of \<^verbatim>\<open>Commit\<close> over the log.\<close>

fun apply_ops :: "Operation list \<Rightarrow> (string \<rightharpoonup> string) \<Rightarrow> (string \<rightharpoonup> string)" where
  "apply_ops [] m = m"
| "apply_ops (opn # ops) m =
     apply_ops ops (if OpType opn = ''PUT'' then m(Key opn \<mapsto> Value opn) else m)"

definition KVService_Commit :: "64 word \<Rightarrow> bool \<Rightarrow> KVService \<Rightarrow> unit result \<times> KVService" where
  "KVService_Commit txid lead kv =
     (let kv1 = (case transactions kv txid of
                   None \<Rightarrow> kv
                 | Some ops \<Rightarrow>
                     (let kv' = kv\<lparr>mp := apply_ops ops (mp kv)\<rparr>
                      in if lead then add_commits kv' else kv'))
      in (Ok (), releaseLocks txid kv1))"

definition KVService_Abort :: "64 word \<Rightarrow> KVService \<Rightarrow> unit result \<times> KVService" where
  "KVService_Abort txid kv = (Ok (), add_aborts (releaseLocks txid kv))"

text \<open>The requests of kvs/proto.go, and a server handling a sequence of them.\<close>

datatype Request =
    GetRequest string "64 word"
  | PutRequest string string "64 word"
  | CommitRequest "64 word" bool
  | AbortRequest "64 word"

fun serve :: "Request \<Rightarrow> KVService \<Rightarrow> KVService" where
  "serve (GetRequest key txid) kv = snd (KVService_Get key txid kv)"
| "serve (PutRequest key val txid) kv = snd (KVService_Put key val txid kv)"
| "serve (CommitRequest txid lead) kv = snd (KVService_Commit txid lead kv)"
| "serve (AbortRequest txid) kv = snd (KVService_Abort txid kv)"

definition serve_all :: "Request list \<Rightarrow> KVService \<Rightarrow> KVService" where
  "serve_all reqs kv = fold serve reqs kv"

fun is_commit :: "Request \<Rightarrow> bool" where
  "is_commit (CommitRequest txid lead) = True"
| "is_commit _ = False"

section \<open>Server: state predicates\<close>

text \<open>The per-key lock invariant: when the write lock is held by \<open>w\<close>, no transaction
  other than \<open>w\<close> is a read holder, and \<open>w\<close> itself is not one either.\<close>

definition lock_inv :: "LockInfo \<Rightarrow> bool" where
  "lock_inv li =
     (case writeHolder li of
        None \<Rightarrow> True
      | Some w \<Rightarrow> readers li |\<subseteq>| {|w|} \<and> w |\<notin>| readers li)"

definition locks_inv :: "KVService \<Rightarrow> bool" where
  "locks_inv kv = (\<forall>key li. locks kv key = Some li \<longrightarrow> lock_inv li)"

text \<open>A transaction holds a lock on a key as a reader or as the writer.\<close>

definition holds :: "64 word \<Rightarrow> LockInfo \<Rightarrow> bool" where
  "holds txid li = (txid |\<in>| readers li \<or> writeHolder li = Some txid)"

definition holds_none :: "64 word \<Rightarrow> KVService \<Rightarrow> bool" where
  "holds_none txid kv = (\<forall>key li. locks kv key = Some li \<longrightarrow> \<not> holds txid li)"

text \<open>The log of a transaction; empty when the server has no entry for it.\<close>

definition log_of :: "KVService \<Rightarrow> 64 word \<Rightarrow> Operation list" where
  "log_of kv txid = (case transactions kv txid of None \<Rightarrow> [] | Some ops \<Rightarrow> ops)"

text \<open>Every lock a transaction holds is on a key of its recorded log (so the
  transaction has a log): the states the handlers produce from the initial one are of
  this kind.\<close>

definition logged :: "KVService \<Rightarrow> bool" where
  "logged kv =
     (\<forall>key li txid. locks kv key = Some li \<and> holds txid li \<longrightarrow>
        key \<in> Key ` set (log_of kv txid))"

text \<open>Every stored lock has only \<^verbatim>\<open>true\<close> values in its \<^verbatim>\<open>readHolders\<close>.\<close>

definition holders_ok :: "KVService \<Rightarrow> bool" where
  "holders_ok kv = (\<forall>key li. locks kv key = Some li \<longrightarrow> holders_true li)"

text \<open>The conditions under which the two acquisitions refuse, as the code tests them.\<close>

definition read_conflict :: "KVService \<Rightarrow> string \<Rightarrow> 64 word \<Rightarrow> bool" where
  "read_conflict kv key txid =
     (case writeHolder (lock_of kv key) of None \<Rightarrow> False | Some w \<Rightarrow> w \<noteq> txid)"

definition write_conflict :: "KVService \<Rightarrow> string \<Rightarrow> 64 word \<Rightarrow> bool" where
  "write_conflict kv key txid =
     (let li = lock_of kv key
      in writeHolder li \<noteq> Some txid \<and>
         (writeHolder li \<noteq> None \<or> 1 < len_map (readHolders li) \<or>
          (len_map (readHolders li) = 1 \<and> \<not> index_bool (readHolders li) txid)))"

text \<open>The values that the PUT records of a log give a key, in log order.\<close>

definition puts_on :: "string \<Rightarrow> Operation list \<Rightarrow> string list" where
  "puts_on key ops = map Value (filter (\<lambda>opn. OpType opn = ''PUT'' \<and> Key opn = key) ops)"

section \<open>Client: data model (kvs/client/set.go, kvs/client/main.go)\<close>

text \<open>\<^verbatim>\<open>Set[T]\<close> of set.go: a map from the elements to the empty struct.\<close>

record 'a GoSet =
  values_GoSet :: "('a, unit) fmap"

definition NewSet :: "'a GoSet" where
  "NewSet = \<lparr>values_GoSet = fmempty\<rparr>"

definition Set_Add :: "'a GoSet \<Rightarrow> 'a \<Rightarrow> 'a GoSet" where
  "Set_Add s val = s\<lparr>values_GoSet := fmupd val () (values_GoSet s)\<rparr>"

definition Set_Remove :: "'a GoSet \<Rightarrow> 'a \<Rightarrow> 'a GoSet" where
  "Set_Remove s val = s\<lparr>values_GoSet := fmdrop val (values_GoSet s)\<rparr>"

definition Set_Contains :: "'a GoSet \<Rightarrow> 'a \<Rightarrow> bool" where
  "Set_Contains s val = (fmlookup (values_GoSet s) val \<noteq> None)"

definition Set_Size :: "'a GoSet \<Rightarrow> nat" where
  "Set_Size s = len_map (values_GoSet s)"

text \<open>
  A \<^verbatim>\<open>Txn\<close>.  The servers (\<^verbatim>\<open>*Client\<close> handles) are values of a type \<open>'c\<close>.
  \<^verbatim>\<open>id\<close> is a \<^verbatim>\<open>*uint64\<close>, nil until \<^verbatim>\<open>Begin\<close>.  \<^verbatim>\<open>Begin\<close> is the only
  assignment to \<^verbatim>\<open>id\<close>, and it allocates \<^verbatim>\<open>usedServers\<close> and \<^verbatim>\<open>writeSet\<close> with
  it; every method returns at its nil check of \<^verbatim>\<open>id\<close> before it reads them, so their
  nil values in the zero \<^verbatim>\<open>Txn\<close> are represented by the empty set and map.
\<close>

record 'c Txn =
  allServers :: "'c list"
  usedServers :: "'c GoSet"
  id_Txn :: "64 word option"
  writeSet :: "(string, string) fmap"

text \<open>\<^verbatim>\<open>Begin\<close>; \<open>r\<close> is the value that \<^verbatim>\<open>randGen.Uint64()\<close> returns.\<close>

definition Begin :: "'c Txn \<Rightarrow> 'c list \<Rightarrow> 64 word \<Rightarrow> 'c Txn" where
  "Begin txn availableServers r =
     txn\<lparr>allServers := availableServers, id_Txn := Some r,
         usedServers := NewSet, writeSet := fmempty\<rparr>"

text \<open>The 32-bit FNV-1a hash of \<^verbatim>\<open>hash/fnv\<close> over the bytes of the key, and
  \<^verbatim>\<open>serverFromKey\<close>: the remainder by an empty server list is an integer division
  by zero.  (\<^verbatim>\<open>int\<close> is 64 bits wide, so \<^verbatim>\<open>int(h.Sum32())\<close> is not negative.)\<close>

definition fnv32a :: "string \<Rightarrow> 32 word" where
  "fnv32a s = foldl (\<lambda>h c. (h XOR word_of_nat (of_char c)) * 16777619) 2166136261 s"

definition serverFromKey :: "string \<Rightarrow> 'c list \<Rightarrow> 'c result" where
  "serverFromKey key servers =
     (if length servers = 0 then Panic ''runtime error: integer divide by zero''
      else Ok (servers ! (unat (fnv32a key) mod length servers)))"

definition getServer :: "'c Txn \<Rightarrow> string \<Rightarrow> 'c result \<times> 'c Txn" where
  "getServer txn key =
     (case serverFromKey key (allServers txn) of
        Ok server \<Rightarrow> (Ok server, txn\<lparr>usedServers := Set_Add (usedServers txn) server\<rparr>)
      | Err e \<Rightarrow> (Err e, txn)
      | Panic m \<Rightarrow> (Panic m, txn))"

text \<open>
  What \<^verbatim>\<open>rpcClient.Call\<close> gives back is an input of the model: an error with its
  message, or the filled response.  The requests a function sends are an output: the list
  of (server, request) pairs in the order of the calls.
\<close>

datatype 'a reply = Failed string | Replied 'a

definition Client_Get :: "'c \<Rightarrow> string \<Rightarrow> 64 word \<Rightarrow> string reply \<Rightarrow> string result \<times> ('c \<times> Request) list" where
  "Client_Get client key txid rep =
     (case rep of
        Failed err \<Rightarrow> (Err err, [(client, GetRequest key txid)])
      | Replied val \<Rightarrow> (Ok val, [(client, GetRequest key txid)]))"

definition Client_Put :: "'c \<Rightarrow> string \<Rightarrow> string \<Rightarrow> 64 word \<Rightarrow> unit reply \<Rightarrow> unit result \<times> ('c \<times> Request) list" where
  "Client_Put client key val txid rep =
     (case rep of
        Failed err \<Rightarrow> (Err err, [(client, PutRequest key val txid)])
      | Replied u \<Rightarrow> (Ok (), [(client, PutRequest key val txid)]))"

text \<open>The loop of \<^verbatim>\<open>Txn.Abort\<close> over the used servers, in the order in which
  \<^verbatim>\<open>range\<close> visits them: it returns at the first Abort call that fails.\<close>

fun Abort_loop :: "64 word \<Rightarrow> ('c \<Rightarrow> unit reply) \<Rightarrow> 'c list \<Rightarrow> unit result \<times> ('c \<times> Request) list" where
  "Abort_loop txid abort_reply [] = (Ok (), [])"
| "Abort_loop txid abort_reply (server # rest) =
     (case abort_reply server of
        Failed err \<Rightarrow> (Err err, [(server, AbortRequest txid)])
      | Replied u \<Rightarrow>
          (let (r, sent) = Abort_loop txid abort_reply rest
           in (r, (server, AbortRequest txid) # sent)))"

text \<open>The order of a \<^verbatim>\<open>range\<close> over a Go map is unspecified: \<open>range_order\<close> gives it,
  and it is a proper one for a map when it lists each key once.\<close>

definition range_ok :: "(('c, unit) fmap \<Rightarrow> 'c list) \<Rightarrow> ('c, unit) fmap \<Rightarrow> bool" where
  "range_ok range_order m = (distinct (range_order m) \<and> set (range_order m) = fmdom' m)"

definition Txn_Abort :: "'c Txn \<Rightarrow> (('c, unit) fmap \<Rightarrow> 'c list) \<Rightarrow> ('c \<Rightarrow> unit reply)
    \<Rightarrow> unit result \<times> ('c \<times> Request) list" where
  "Txn_Abort txn range_order abort_reply =
     (case id_Txn txn of
        None \<Rightarrow> (Err ''cannot abort a transaction that has not begun'', [])
      | Some txid \<Rightarrow> Abort_loop txid abort_reply (range_order (values_GoSet (usedServers txn))))"

text \<open>\<^verbatim>\<open>strings.Contains\<close>.\<close>

definition strings_Contains :: "string \<Rightarrow> string \<Rightarrow> bool" where
  "strings_Contains s substr = sublist substr s"

text \<open>The test both \<^verbatim>\<open>Txn.Get\<close> and \<^verbatim>\<open>Txn.Put\<close> make on the message of an RPC
  error.\<close>

definition is_lock_conflict :: "string \<Rightarrow> bool" where
  "is_lock_conflict msg =
     (strings_Contains msg ''Cannot acquire'' \<or> strings_Contains msg ''Abort:'')"

definition Txn_Get :: "'c Txn \<Rightarrow> string \<Rightarrow> string reply \<Rightarrow> (('c, unit) fmap \<Rightarrow> 'c list)
    \<Rightarrow> ('c \<Rightarrow> unit reply) \<Rightarrow> string result \<times> 'c Txn \<times> ('c \<times> Request) list" where
  "Txn_Get txn key rep range_order abort_reply =
     (case id_Txn txn of
        None \<Rightarrow> (Err ''cannot call Get on a transaction that has not begun'', txn, [])
      | Some txid \<Rightarrow>
          (case fmlookup (writeSet txn) key of
             Some cachedVal \<Rightarrow> (Ok cachedVal, txn, [])
           | None \<Rightarrow>
               (case getServer txn key of
                  (Panic m, txn1) \<Rightarrow> (Panic m, txn1, [])
                | (Err e, txn1) \<Rightarrow> (Err e, txn1, [])
                | (Ok server, txn1) \<Rightarrow>
                    (case Client_Get server key txid rep of
                       (Ok resp, sent) \<Rightarrow> (Ok resp, txn1, sent)
                     | (Panic m, sent) \<Rightarrow> (Panic m, txn1, sent)
                     | (Err err, sent) \<Rightarrow>
                         if is_lock_conflict err then
                           (Err (''lock conflict: '' @ err), txn1, sent)
                         else
                           (let (u, sent_abort) = Txn_Abort txn1 range_order abort_reply
                            in (Err (''server-side error raised: '' @ err), txn1,
                                sent @ sent_abort))))))"

definition Txn_Put :: "'c Txn \<Rightarrow> string \<Rightarrow> string \<Rightarrow> unit reply \<Rightarrow> (('c, unit) fmap \<Rightarrow> 'c list)
    \<Rightarrow> ('c \<Rightarrow> unit reply) \<Rightarrow> unit result \<times> 'c Txn \<times> ('c \<times> Request) list" where
  "Txn_Put txn key val rep range_order abort_reply =
     (case id_Txn txn of
        None \<Rightarrow> (Err ''cannot call Put on a transaction that has not begun'', txn, [])
      | Some txid \<Rightarrow>
          (case getServer txn key of
             (Panic m, txn1) \<Rightarrow> (Panic m, txn1, [])
           | (Err e, txn1) \<Rightarrow> (Err e, txn1, [])
           | (Ok server, txn1) \<Rightarrow>
               (case Client_Put server key val txid rep of
                  (Ok u, sent) \<Rightarrow> (Ok (), txn1\<lparr>writeSet := fmupd key val (writeSet txn1)\<rparr>, sent)
                | (Panic m, sent) \<Rightarrow> (Panic m, txn1, sent)
                | (Err err, sent) \<Rightarrow>
                    if is_lock_conflict err then
                      (Err (''lock conflict: '' @ err), txn1, sent)
                    else
                      (let (u, sent_abort) = Txn_Abort txn1 range_order abort_reply
                       in (Err (''server-side error raised: '' @ err), txn1,
                           sent @ sent_abort)))))"

text \<open>The servers that a list of sent requests asks to abort.\<close>

fun abort_targets :: "('c \<times> Request) list \<Rightarrow> 'c list" where
  "abort_targets [] = []"
| "abort_targets ((c, AbortRequest txid) # sent) = c # abort_targets sent"
| "abort_targets (x # sent) = abort_targets sent"

text \<open>The server \<^verbatim>\<open>getServer\<close> picks for a key, the transaction after \<^verbatim>\<open>getServer\<close>
  has added it to the used servers, and the participants of a transaction.\<close>

definition server_of :: "'c Txn \<Rightarrow> string \<Rightarrow> 'c" where
  "server_of txn key = allServers txn ! (unat (fnv32a key) mod length (allServers txn))"

definition with_server :: "'c Txn \<Rightarrow> string \<Rightarrow> 'c Txn" where
  "with_server txn key = txn\<lparr>usedServers := Set_Add (usedServers txn) (server_of txn key)\<rparr>"

definition participants :: "'c Txn \<Rightarrow> 'c set" where
  "participants txn = fmdom' (values_GoSet (usedServers txn))"

section \<open>Client: retry delays (performTransfer, checkTotalBalance)\<close>

text \<open>
  \<^verbatim>\<open>int\<close> and \<^verbatim>\<open>time.Duration\<close> are signed 64-bit integers: \<open>int64\<close> wraps an
  integer into their range.  \<^verbatim>\<open>1 << uint(retry)\<close> is \<open>2 ^ retry\<close> wrapped (zero from
  64 bits on).  A duration counts nanoseconds.
\<close>

definition int64 :: "int \<Rightarrow> int" where
  "int64 x = (x + 2 ^ 63) mod 2 ^ 64 - 2 ^ 63"

definition shl1 :: "nat \<Rightarrow> int" where
  "shl1 n = int64 (2 ^ n)"

definition Millisecond :: int where
  "Millisecond = 1000000"

definition Second :: int where
  "Second = 1000 * Millisecond"

text \<open>\<^verbatim>\<open>randGen.Intn(n)\<close> panics unless \<open>n\<close> is positive; the number it returns, some
  integer of \<open>[0, n)\<close>, is given by the generator's draw \<open>r\<close> as \<open>r mod n\<close>.\<close>

definition Intn :: "int \<Rightarrow> int \<Rightarrow> int result" where
  "Intn n r = (if n \<le> 0 then Panic ''invalid argument to Intn'' else Ok (r mod n))"

text \<open>The delay of \<^verbatim>\<open>performTransfer\<close> after a conflict in attempt \<open>retry\<close> (the same
  code at its three places): no sleep in the last attempt.\<close>

definition transfer_backoffTime :: "nat \<Rightarrow> int" where
  "transfer_backoffTime retry =
     (let baseDelay = 20;
          backoffTime = int64 (int64 (baseDelay * shl1 retry) * Millisecond)
      in if backoffTime > 2 * Second then 2 * Second else backoffTime)"

definition transfer_sleep :: "nat \<Rightarrow> int \<Rightarrow> int option result" where
  "transfer_sleep retry r =
     (let maxRetries = 15
      in if int retry < maxRetries - 1 then
           (let backoffTime = transfer_backoffTime retry
            in case Intn (backoffTime sdiv 2) r of
                 Ok jitter \<Rightarrow> Ok (Some (int64 (backoffTime + jitter)))
               | Err e \<Rightarrow> Err e
               | Panic m \<Rightarrow> Panic m)
         else Ok None)"

text \<open>The delay of \<^verbatim>\<open>checkTotalBalance\<close> after a conflict in attempt \<open>retry\<close> (the
  same code at its two places).\<close>

definition check_backoffTime :: "nat \<Rightarrow> int" where
  "check_backoffTime retry = int64 (int64 (50 * shl1 retry) * Millisecond)"

definition check_sleep :: "nat \<Rightarrow> int \<Rightarrow> int result" where
  "check_sleep retry r =
     (let backoffTime = check_backoffTime retry
      in case Intn (backoffTime sdiv 2) r of
           Ok jitter \<Rightarrow> Ok (int64 (backoffTime + jitter))
         | Err e \<Rightarrow> Err e
         | Panic m \<Rightarrow> Panic m)"

section \<open>Example states\<close>

text \<open>A server on which transaction 1 has written \<open>k\<close> and read \<open>j\<close>, and a client
  transaction begun with one server and the id 7.\<close>

definition kv_example :: KVService where
  "kv_example = serve_all [PutRequest ''k'' ''a'' 1, GetRequest ''j'' 1] NewKVService"

definition zero_Txn :: "nat Txn" where
  "zero_Txn = \<lparr>allServers = [], usedServers = NewSet, id_Txn = None, writeSet = fmempty\<rparr>"

definition txn_example :: "nat Txn" where
  "txn_example = Begin zero_Txn [0] 7"

text \<open>A \<^verbatim>\<open>range\<close> that visits the servers in ascending order, and servers that answer
  every Abort.\<close>

definition range_sorted :: "(nat, unit) fmap \<Rightarrow> nat list" where
  "range_sorted m = sorted_list_of_set (fmdom' m)"

definition all_replied :: "nat \<Rightarrow> unit reply" where
  "all_replied c = Replied ()"

section \<open>Lock manager: basic facts\<close>

lemmas handler_defs = serve_all_def KVService_Get_def KVService_Put_def KVService_Commit_def
  KVService_Abort_def ensure_txn_def append_op_def acquireReadLock_def acquireWriteLock_def
  releaseLocks_def release_one_def release_lock_def LoadOrStore_def NewKVService_def
  NewLockInfo_def add_aborts_def add_gets_def add_puts_def add_commits_def len_map_def
  index_bool_def Let_def

lemma kv_example_eval:
  "kv_example =
     \<lparr>mp = Map.empty,
      locks = [''k'' \<mapsto> \<lparr>readHolders = fmempty, writeHolder = Some 1\<rparr>,
               ''j'' \<mapsto> \<lparr>readHolders = fmupd 1 True fmempty, writeHolder = None\<rparr>],
      transactions = [1 \<mapsto> [\<lparr>OpType = ''PUT'', Key = ''k'', Value = ''a''\<rparr>,
                              \<lparr>OpType = ''GET'', Key = ''j'', Value = ''''\<rparr>]],
      stats = \<lparr>puts = 1, gets = 1, commits = 0, aborts = 0\<rparr>\<rparr>"
  by (simp add: kv_example_def handler_defs fcard.rep_eq)

lemma locks_inv_kv_example: "locks_inv kv_example"
  by (auto simp: kv_example_eval locks_inv_def lock_inv_def readers_def split: if_splits)

lemma fcard_subset_single:
  "(\<not> 1 < fcard A \<and> \<not> (fcard A = 1 \<and> t |\<notin>| A)) \<longleftrightarrow> A |\<subseteq>| {|t|}"
proof
  assume h: "\<not> 1 < fcard A \<and> \<not> (fcard A = 1 \<and> t |\<notin>| A)"
  show "A |\<subseteq>| {|t|}"
  proof (cases "fcard A = 0")
    case True
    then show ?thesis by simp
  next
    case False
    from False h have c1: "fcard A = 1" by linarith
    with h have m: "t |\<in>| A" by blast
    from c1 have c: "card (fset A) = 1" by (simp add: fcard.rep_eq)
    from c obtain x where "fset A = {x}"
      by (auto simp: card_1_singleton_iff)
    with m show ?thesis by auto
  qed
next
  assume "A |\<subseteq>| {|t|}"
  then have "A = {||} \<or> A = {|t|}" by auto
  then show "\<not> 1 < fcard A \<and> \<not> (fcard A = 1 \<and> t |\<notin>| A)" by (auto simp: fcard.rep_eq)
qed

lemma index_bool_true:
  "holders_true li \<Longrightarrow> index_bool (readHolders li) t \<longleftrightarrow> t |\<in>| readers li"
  by (auto simp: holders_true_def index_bool_def readers_def fmlookup_dom_iff split: option.splits)

lemma index_bool_dom: "index_bool m t \<Longrightarrow> t |\<in>| fmdom m"
  by (auto simp: index_bool_def fmlookup_dom_iff split: option.splits)

lemma acquireWriteLock_unfold:
  "acquireWriteLock key txid kv =
     (let li = lock_of kv key in
      if writeHolder li = Some txid then (None, kv)
      else if writeHolder li \<noteq> None then
        (Some ''Cannot acquire Write Lock, key is currently write locked'', kv)
      else if len_map (readHolders li) > 1 then
        (Some ''Cannot acquire Write Lock, key has multiple read locks'', kv)
      else if len_map (readHolders li) = 1 \<and> \<not> index_bool (readHolders li) txid then
        (Some ''Cannot acquire Write Lock, key is read locked by another transaction'', kv)
      else (None, kv\<lparr>locks := (locks kv)(key \<mapsto>
              li\<lparr>writeHolder := Some txid, readHolders := fmdrop txid (readHolders li)\<rparr>)\<rparr>))"
  by (cases "locks kv key")
     (auto simp: acquireWriteLock_def LoadOrStore_def lock_of_def NewLockInfo_def Let_def
        len_map_def index_bool_def fcard.rep_eq)

lemma acquireReadLock_unfold:
  "acquireReadLock key txid kv =
     (let li = lock_of kv key in
      if writeHolder li \<noteq> None \<and> writeHolder li \<noteq> Some txid then
        (Some ''Cannot acquire Read Lock, key is currently write locked'', kv)
      else if writeHolder li = Some txid then (None, kv)
      else (None, kv\<lparr>locks := (locks kv)(key \<mapsto>
              li\<lparr>readHolders := fmupd txid True (readHolders li)\<rparr>)\<rparr>))"
  by (cases "locks kv key")
     (auto simp: acquireReadLock_def LoadOrStore_def lock_of_def NewLockInfo_def Let_def)

lemma release_lock_idem: "release_lock txid (release_lock txid li) = release_lock txid li"
  by (simp add: release_lock_def Let_def)

lemma release_ops_apply:
  "release_ops txid ops lk k =
     (if k \<in> Key ` set ops then map_option (release_lock txid) (lk k) else lk k)"
proof (induction ops arbitrary: lk)
  case Nil
  show ?case by simp
next
  case (Cons opn ops)
  show ?case
    by (cases "lk (Key opn)")
       (auto simp: Cons.IH release_one_def release_lock_idem)
qed

lemma releaseLocks_locks:
  "locks (releaseLocks txid kv) k =
     (if k \<in> Key ` set (log_of kv txid) then map_option (release_lock txid) (locks kv k)
      else locks kv k)"
  by (cases "transactions kv txid")
     (simp_all add: releaseLocks_def log_of_def release_ops_apply)

lemma releaseLocks_transactions:
  "transactions (releaseLocks txid kv) = (transactions kv)(txid := None)"
  by (cases "transactions kv txid") (simp_all add: releaseLocks_def)

lemma releaseLocks_mp: "mp (releaseLocks txid kv) = mp kv"
  by (cases "transactions kv txid") (simp_all add: releaseLocks_def)

lemma releaseLocks_stats: "stats (releaseLocks txid kv) = stats kv"
  by (cases "transactions kv txid") (simp_all add: releaseLocks_def)

lemma readers_release_lock: "readers (release_lock txid li) = readers li |-| {|txid|}"
  by (simp add: readers_def release_lock_def Let_def)

lemma writeHolder_release_lock:
  "writeHolder (release_lock txid li) = (if writeHolder li = Some txid then None else writeHolder li)"
  by (simp add: release_lock_def Let_def)

lemma lock_inv_release_lock: "lock_inv li \<Longrightarrow> lock_inv (release_lock txid li)"
  by (auto simp: lock_inv_def readers_release_lock writeHolder_release_lock split: option.splits)

lemma lock_inv_New: "lock_inv NewLockInfo"
  by (simp add: lock_inv_def NewLockInfo_def)

lemma lock_inv_lock_of: "locks_inv kv \<Longrightarrow> lock_inv (lock_of kv key)"
  by (auto simp: locks_inv_def lock_of_def lock_inv_New split: option.splits)

lemma locks_inv_acquireReadLock:
  assumes "locks_inv kv"
  shows "locks_inv (snd (acquireReadLock key txid kv))"
proof -
  have li: "lock_inv (lock_of kv key)" using assms by (rule lock_inv_lock_of)
  show ?thesis
    using assms li
    by (auto simp: acquireReadLock_unfold Let_def locks_inv_def lock_inv_def)
qed

lemma locks_inv_acquireWriteLock:
  assumes "locks_inv kv"
  shows "locks_inv (snd (acquireWriteLock key txid kv))"
proof -
  let ?li = "lock_of kv key"
  have sub: "(\<not> 1 < len_map (readHolders ?li) \<and>
              \<not> (len_map (readHolders ?li) = 1 \<and> \<not> index_bool (readHolders ?li) txid))
             \<Longrightarrow> readers ?li |\<subseteq>| {|txid|}"
    using fcard_subset_single [of "readers ?li" txid] index_bool_dom [of "readHolders ?li" txid]
    by (auto simp add: len_map_def readers_def)
  show ?thesis
    using assms sub
    by (auto simp: acquireWriteLock_unfold Let_def locks_inv_def lock_inv_def readers_def)
qed

lemma locks_inv_releaseLocks:
  assumes "locks_inv kv"
  shows "locks_inv (releaseLocks txid kv)"
  using assms
  by (auto simp: locks_inv_def releaseLocks_locks lock_inv_release_lock split: if_splits)

text \<open>
  Claim C1.  Each operation of the lock manager, \<^verbatim>\<open>acquireReadLock\<close>,
  \<^verbatim>\<open>acquireWriteLock\<close> and \<^verbatim>\<open>releaseLocks\<close>, preserves the per-key lock
  invariant \<^const>\<open>locks_inv\<close>: for every key, whenever the write lock is held by \<open>w\<close>, the
  read holders of that key contain no transaction other than \<open>w\<close>, and not \<open>w\<close> either.
  (At most one transaction holds the write lock of a key: \<^verbatim>\<open>writeHolder\<close> is one
  pointer.)
\<close>

theorem lock_manager_preserves_lock_inv:
  assumes "locks_inv kv"
  shows "locks_inv (snd (acquireReadLock key txid kv))
       \<and> locks_inv (snd (acquireWriteLock key txid kv))
       \<and> locks_inv (releaseLocks txid kv)"
  using assms
  by (simp add: locks_inv_acquireReadLock locks_inv_acquireWriteLock locks_inv_releaseLocks)

theorem lock_manager_preserves_lock_inv_witness:
  "locks_inv kv_example
   \<and> locks_inv (snd (acquireReadLock ''j'' 2 kv_example))
   \<and> locks_inv (snd (acquireWriteLock ''j'' 2 kv_example))
   \<and> locks_inv (releaseLocks 2 kv_example)"
  using locks_inv_kv_example lock_manager_preserves_lock_inv [OF locks_inv_kv_example, of "''j''" 2]
  by simp

text \<open>
  Claim C2.  On a lock whose stored read-holder values are all \<^verbatim>\<open>true\<close> (the only value
  the code stores), \<^verbatim>\<open>acquireWriteLock\<close> succeeds if and only if \<open>txid\<close> already holds
  the write lock, or nobody holds it and the read holders are a subset of \<open>{txid}\<close>.  In the
  first case the state is unchanged; in the second the writer becomes \<open>txid\<close> and \<open>txid\<close>
  is removed from the read holders; in every other case an error is returned and the state
  is unchanged.
\<close>

theorem acquireWriteLock_spec:
  assumes wf: "holders_true (lock_of kv key)"
  shows "(fst (acquireWriteLock key txid kv) = None \<longleftrightarrow>
            (writeHolder (lock_of kv key) = Some txid \<or>
             (writeHolder (lock_of kv key) = None \<and> readers (lock_of kv key) |\<subseteq>| {|txid|})))
       \<and> (writeHolder (lock_of kv key) = Some txid \<longrightarrow>
            snd (acquireWriteLock key txid kv) = kv)
       \<and> (writeHolder (lock_of kv key) = None \<and> readers (lock_of kv key) |\<subseteq>| {|txid|} \<longrightarrow>
            snd (acquireWriteLock key txid kv) =
              kv\<lparr>locks := (locks kv)(key \<mapsto>
                (lock_of kv key)\<lparr>writeHolder := Some txid,
                                 readHolders := fmdrop txid (readHolders (lock_of kv key))\<rparr>)\<rparr>)
       \<and> (fst (acquireWriteLock key txid kv) \<noteq> None \<longrightarrow>
            snd (acquireWriteLock key txid kv) = kv)"
proof -
  let ?li = "lock_of kv key"
  have sub: "(\<not> 1 < len_map (readHolders ?li) \<and>
              \<not> (len_map (readHolders ?li) = 1 \<and> \<not> index_bool (readHolders ?li) txid))
             \<longleftrightarrow> readers ?li |\<subseteq>| {|txid|}"
    using fcard_subset_single [of "readers ?li" txid] index_bool_true [OF wf, of txid]
    by (simp add: len_map_def readers_def)
  show ?thesis
    using sub by (auto simp: acquireWriteLock_unfold Let_def)
qed

theorem acquireWriteLock_spec_witness:
  "holders_true (lock_of kv_example ''j'')
   \<and> writeHolder (lock_of kv_example ''j'') = None
   \<and> readers (lock_of kv_example ''j'') |\<subseteq>| {|1|}
   \<and> fst (acquireWriteLock ''j'' 1 kv_example) = None
   \<and> lock_of (snd (acquireWriteLock ''j'' 1 kv_example)) ''j'' =
       \<lparr>readHolders = fmempty, writeHolder = Some 1\<rparr>
   \<and> \<not> readers (lock_of kv_example ''j'') |\<subseteq>| {|2|}
   \<and> fst (acquireWriteLock ''j'' 2 kv_example) \<noteq> None
   \<and> snd (acquireWriteLock ''j'' 2 kv_example) = kv_example"
proof -
  have h: "holders_true (lock_of kv_example ''j'')"
    by (auto simp: kv_example_eval lock_of_def holders_true_def fmpred_iff split: if_splits)
  have l: "lock_of kv_example ''j'' = \<lparr>readHolders = fmupd 1 True fmempty, writeHolder = None\<rparr>"
    by (simp add: kv_example_eval lock_of_def)
  have r1: "fst (acquireWriteLock ''j'' 1 kv_example) = None \<and>
            snd (acquireWriteLock ''j'' 1 kv_example) =
              kv_example\<lparr>locks := (locks kv_example)(''j'' \<mapsto>
                 \<lparr>readHolders = fmdrop 1 (fmupd 1 True fmempty), writeHolder = Some 1\<rparr>)\<rparr>"
    using acquireWriteLock_spec [OF h, of 1] by (simp add: l readers_def)
  have r2: "fst (acquireWriteLock ''j'' 2 kv_example) \<noteq> None \<and>
            snd (acquireWriteLock ''j'' 2 kv_example) = kv_example"
    using acquireWriteLock_spec [OF h, of 2] by (simp add: l readers_def)
  show ?thesis
    using h r2 by (simp add: r1 l readers_def) (simp add: lock_of_def fmdrop_fmupd_same)
qed

section \<open>Handlers: explicit results\<close>

lemma lock_of_ensure_txn [simp]: "lock_of (ensure_txn txid kv) key = lock_of kv key"
  by (simp add: lock_of_def ensure_txn_def)

lemma locks_ensure_txn [simp]: "locks (ensure_txn txid kv) = locks kv"
  by (simp add: ensure_txn_def)

lemma mp_ensure_txn [simp]: "mp (ensure_txn txid kv) = mp kv"
  by (simp add: ensure_txn_def)

lemma stats_ensure_txn [simp]: "stats (ensure_txn txid kv) = stats kv"
  by (simp add: ensure_txn_def)

lemma transactions_ensure_txn:
  "transactions (ensure_txn txid kv) = (transactions kv)(txid \<mapsto> log_of kv txid)"
  by (cases "transactions kv txid") (auto simp: ensure_txn_def log_of_def)


lemma log_of_ensure_txn [simp]: "log_of (ensure_txn txid kv) t = log_of kv t"
  by (simp add: log_of_def transactions_ensure_txn)

lemma acquireReadLock_conflict:
  assumes "read_conflict kv key txid"
  shows "acquireReadLock key txid kv =
           (Some ''Cannot acquire Read Lock, key is currently write locked'', kv)"
  using assms
  by (cases "writeHolder (lock_of kv key)")
     (simp_all add: acquireReadLock_unfold Let_def read_conflict_def)

lemma acquireReadLock_ok:
  assumes "\<not> read_conflict kv key txid"
  shows "acquireReadLock key txid kv =
           (None, kv\<lparr>locks :=
                 (if writeHolder (lock_of kv key) = Some txid then locks kv
                  else (locks kv)(key \<mapsto>
                    (lock_of kv key)\<lparr>readHolders := fmupd txid True (readHolders (lock_of kv key))\<rparr>))\<rparr>)"
  using assms
  by (cases "writeHolder (lock_of kv key)")
     (simp_all add: acquireReadLock_unfold Let_def read_conflict_def)

lemma read_conflict_ensure_txn [simp]:
  "read_conflict (ensure_txn txid kv) key t = read_conflict kv key t"
  by (simp add: read_conflict_def)

lemma KVService_Get_conflict:
  assumes "read_conflict kv key txid"
  shows "KVService_Get key txid kv =
           (Err ''Cannot acquire Read Lock, key is currently write locked'',
            add_aborts (releaseLocks txid (ensure_txn txid kv)))"
proof -
  have c: "read_conflict (ensure_txn txid kv) key txid" using assms by simp
  show ?thesis
    unfolding KVService_Get_def Let_def acquireReadLock_conflict [OF c] by simp
qed

lemma KVService_Get_ok:
  assumes "\<not> read_conflict kv key txid"
  shows "KVService_Get key txid kv =
           (Ok (case mp kv key of Some v \<Rightarrow> v | None \<Rightarrow> ''''),
            add_gets (kv\<lparr>locks :=
                 (if writeHolder (lock_of kv key) = Some txid then locks kv
                  else (locks kv)(key \<mapsto>
                    (lock_of kv key)\<lparr>readHolders := fmupd txid True (readHolders (lock_of kv key))\<rparr>)),
               transactions := (transactions kv)(txid \<mapsto>
                  log_of kv txid @ [\<lparr>OpType = ''GET'', Key = key, Value = ''''\<rparr>])\<rparr>))"
proof -
  let ?kv1 = "ensure_txn txid kv"
  have nc: "\<not> read_conflict ?kv1 key txid"
    using assms by simp
  have t: "transactions ?kv1 txid = Some (log_of kv txid)"
    by (simp add: transactions_ensure_txn)
  show ?thesis
    unfolding KVService_Get_def Let_def acquireReadLock_ok [OF nc]
    by (simp add: append_op_def t add_gets_def transactions_ensure_txn)
qed


lemma acquireWriteLock_conflict:
  assumes "write_conflict kv key txid"
  shows "\<exists>e. acquireWriteLock key txid kv = (Some e, kv) \<and> sublist ''Cannot acquire'' e"
  using assms
  by (cases "writeHolder (lock_of kv key)")
     (auto simp add: acquireWriteLock_unfold Let_def write_conflict_def sublist_Cons_right)

lemma acquireWriteLock_ok:
  assumes "\<not> write_conflict kv key txid"
  shows "acquireWriteLock key txid kv =
           (None, kv\<lparr>locks :=
                 (if writeHolder (lock_of kv key) = Some txid then locks kv
                  else (locks kv)(key \<mapsto>
                    (lock_of kv key)\<lparr>writeHolder := Some txid,
                       readHolders := fmdrop txid (readHolders (lock_of kv key))\<rparr>))\<rparr>)"
  using assms
  by (cases "writeHolder (lock_of kv key)")
     (auto simp add: acquireWriteLock_unfold Let_def write_conflict_def)

lemma write_conflict_ensure_txn [simp]:
  "write_conflict (ensure_txn txid kv) key t = write_conflict kv key t"
  by (simp add: write_conflict_def)

lemma KVService_Put_conflict:
  assumes "write_conflict kv key txid"
  shows "\<exists>e. KVService_Put key val txid kv =
           (Err e, add_aborts (releaseLocks txid (ensure_txn txid kv))) \<and>
           sublist ''Cannot acquire'' e"
proof -
  have c: "write_conflict (ensure_txn txid kv) key txid" using assms by simp
  from acquireWriteLock_conflict [OF c] obtain e where
    e: "acquireWriteLock key txid (ensure_txn txid kv) = (Some e, ensure_txn txid kv)"
    and s: "sublist ''Cannot acquire'' e" by blast
  show ?thesis
    unfolding KVService_Put_def Let_def e using s by simp
qed

lemma KVService_Put_ok:
  assumes "\<not> write_conflict kv key txid"
  shows "KVService_Put key val txid kv =
           (Ok (),
            add_puts (kv\<lparr>locks :=
                 (if writeHolder (lock_of kv key) = Some txid then locks kv
                  else (locks kv)(key \<mapsto>
                    (lock_of kv key)\<lparr>writeHolder := Some txid,
                       readHolders := fmdrop txid (readHolders (lock_of kv key))\<rparr>)),
               transactions := (transactions kv)(txid \<mapsto>
                  log_of kv txid @ [\<lparr>OpType = ''PUT'', Key = key, Value = val\<rparr>])\<rparr>))"
proof -
  let ?kv1 = "ensure_txn txid kv"
  have nc: "\<not> write_conflict ?kv1 key txid"
    using assms by simp
  have t: "transactions ?kv1 txid = Some (log_of kv txid)"
    by (simp add: transactions_ensure_txn)
  show ?thesis
    unfolding KVService_Put_def Let_def acquireWriteLock_ok [OF nc]
    by (simp add: append_op_def t add_puts_def transactions_ensure_txn)
qed

section \<open>The held locks are logged\<close>

lemma holds_release_lock:
  "holds t (release_lock txid li) \<longleftrightarrow> t \<noteq> txid \<and> holds t li"
  by (auto simp: holds_def readers_release_lock writeHolder_release_lock)

lemma logged_ensure_txn: "logged kv \<Longrightarrow> logged (ensure_txn txid kv)"
  unfolding logged_def by simp

lemma log_of_releaseLocks:
  "log_of (releaseLocks txid kv) t = (if t = txid then [] else log_of kv t)"
  by (simp add: log_of_def releaseLocks_transactions)

lemma logged_releaseLocks: "logged kv \<Longrightarrow> logged (releaseLocks txid kv)"
  unfolding logged_def
  by (auto simp: releaseLocks_locks log_of_releaseLocks holds_release_lock split: if_splits)

lemma holds_none_releaseLocks: "logged kv \<Longrightarrow> holds_none txid (releaseLocks txid kv)"
  unfolding logged_def holds_none_def
  by (auto simp: releaseLocks_locks holds_release_lock split: if_splits)


lemma add_aborts_simps [simp]:
  "locks (add_aborts kv) = locks kv" "transactions (add_aborts kv) = transactions kv"
  "mp (add_aborts kv) = mp kv" "stats (add_aborts kv) = (stats kv)\<lparr>aborts := aborts (stats kv) + 1\<rparr>"
  by (simp_all add: add_aborts_def)

lemma add_gets_simps [simp]:
  "locks (add_gets kv) = locks kv" "transactions (add_gets kv) = transactions kv"
  "mp (add_gets kv) = mp kv" "stats (add_gets kv) = (stats kv)\<lparr>gets := gets (stats kv) + 1\<rparr>"
  by (simp_all add: add_gets_def)

lemma add_puts_simps [simp]:
  "locks (add_puts kv) = locks kv" "transactions (add_puts kv) = transactions kv"
  "mp (add_puts kv) = mp kv" "stats (add_puts kv) = (stats kv)\<lparr>puts := puts (stats kv) + 1\<rparr>"
  by (simp_all add: add_puts_def)

lemma add_commits_simps [simp]:
  "locks (add_commits kv) = locks kv" "transactions (add_commits kv) = transactions kv"
  "mp (add_commits kv) = mp kv" "stats (add_commits kv) = (stats kv)\<lparr>commits := commits (stats kv) + 1\<rparr>"
  by (simp_all add: add_commits_def)

lemma logged_cong:
  "locks kv' = locks kv \<Longrightarrow> transactions kv' = transactions kv \<Longrightarrow> logged kv' = logged kv"
  by (simp add: logged_def log_of_def)

lemma logged_add [simp]:
  "logged (add_aborts kv) = logged kv" "logged (add_gets kv) = logged kv"
  "logged (add_puts kv) = logged kv" "logged (add_commits kv) = logged kv"
  by (rule logged_cong; simp)+

lemma holds_none_add [simp]:
  "holds_none t (add_aborts kv) = holds_none t kv" "holds_none t (add_gets kv) = holds_none t kv"
  "holds_none t (add_puts kv) = holds_none t kv" "holds_none t (add_commits kv) = holds_none t kv"
  by (simp_all add: holds_none_def)

lemma holds_none_cong:
  "locks kv' = locks kv \<Longrightarrow> holds_none t kv' = holds_none t kv"
  by (simp add: holds_none_def)

lemma lock_of_holds: "holds t (lock_of kv key) \<Longrightarrow> \<exists>li. locks kv key = Some li \<and> holds t li"
  by (cases "locks kv key") (auto simp: lock_of_def holds_def NewLockInfo_def readers_def)

lemma logged_lock_of: "logged kv \<Longrightarrow> holds t (lock_of kv key) \<Longrightarrow> key \<in> Key ` set (log_of kv t)"
  using lock_of_holds [of t kv key] by (auto simp: logged_def)

lemma logged_step:
  assumes lg: "logged kv"
    and others: "\<And>k. k \<noteq> key \<Longrightarrow> locks kv' k = locks kv k"
    and atkey: "locks kv' key = Some li'"
    and h: "\<And>t. holds t li' \<Longrightarrow> t = txid \<or> holds t (lock_of kv key)"
    and tr: "\<And>t. log_of kv' t = (if t = txid then log_of kv txid @ [opn] else log_of kv t)"
    and k: "Key opn = key"
  shows "logged kv'"
  unfolding logged_def
proof (intro allI impI)
  fix k li t
  assume a: "locks kv' k = Some li \<and> holds t li"
  have mono: "\<And>x. x \<in> Key ` set (log_of kv t) \<Longrightarrow> x \<in> Key ` set (log_of kv' t)"
    by (auto simp: tr)
  show "k \<in> Key ` set (log_of kv' t)"
  proof (cases "k = key")
    case False
    with a others have "locks kv k = Some li" by simp
    with a lg have "k \<in> Key ` set (log_of kv t)" by (auto simp: logged_def)
    then show ?thesis by (rule mono)
  next
    case True
    with a atkey have "holds t li'" by simp
    then have "t = txid \<or> holds t (lock_of kv key)" by (rule h)
    then show ?thesis
    proof
      assume "t = txid"
      then show ?thesis using True k by (simp add: tr)
    next
      assume "holds t (lock_of kv key)"
      with lg have "key \<in> Key ` set (log_of kv t)" by (rule logged_lock_of)
      then show ?thesis using True mono by simp
    qed
  qed
qed

lemma lock_of_writer_present:
  "writeHolder (lock_of kv key) = Some w \<Longrightarrow> locks kv key = Some (lock_of kv key)"
  by (cases "locks kv key") (simp_all add: lock_of_def NewLockInfo_def)

lemma logged_Get: 
  assumes "logged kv"
  shows "logged (snd (KVService_Get key txid kv))"
proof (cases "read_conflict kv key txid")
  case True
  have "logged (releaseLocks txid (ensure_txn txid kv))"
    using assms by (intro logged_releaseLocks logged_ensure_txn)
  then show ?thesis
    by (simp add: KVService_Get_conflict [OF True])
next
  case False
  define li' where "li' = (if writeHolder (lock_of kv key) = Some txid then lock_of kv key
              else (lock_of kv key)\<lparr>readHolders := fmupd txid True (readHolders (lock_of kv key))\<rparr>)"
  define kv' where "kv' = snd (KVService_Get key txid kv)"
  have l: "locks kv' = (if writeHolder (lock_of kv key) = Some txid then locks kv
                  else (locks kv)(key \<mapsto> li'))"
    and t: "transactions kv' = (transactions kv)(txid \<mapsto>
                  log_of kv txid @ [\<lparr>OpType = ''GET'', Key = key, Value = ''''\<rparr>])"
    by (simp_all add: kv'_def li'_def KVService_Get_ok [OF False])
  have "logged kv'"
  proof (rule logged_step [OF assms, where key = key and txid = txid and li' = li'
        and opn = "\<lparr>OpType = ''GET'', Key = key, Value = ''''\<rparr>"])
    show "\<And>t. holds t li' \<Longrightarrow> t = txid \<or> holds t (lock_of kv key)"
      by (auto simp: li'_def holds_def readers_def split: if_splits)
    show "locks kv' key = Some li'"
      by (cases "writeHolder (lock_of kv key) = Some txid")
         (simp_all add: l li'_def lock_of_writer_present [of kv key txid])
    show "\<And>k. k \<noteq> key \<Longrightarrow> locks kv' k = locks kv k"
      by (simp add: l)
    show "\<And>t. log_of kv' t = (if t = txid
        then log_of kv txid @ [\<lparr>OpType = ''GET'', Key = key, Value = ''''\<rparr>] else log_of kv t)"
      by (simp add: log_of_def t)
  qed simp
  then show ?thesis by (simp add: kv'_def)
qed

lemma logged_Put: 
  assumes "logged kv"
  shows "logged (snd (KVService_Put key val txid kv))"
proof (cases "write_conflict kv key txid")
  case True
  have "logged (releaseLocks txid (ensure_txn txid kv))"
    using assms by (intro logged_releaseLocks logged_ensure_txn)
  then show ?thesis
    using KVService_Put_conflict [OF True, of val]
    by auto
next
  case False
  define li' where "li' = (if writeHolder (lock_of kv key) = Some txid then lock_of kv key
              else (lock_of kv key)\<lparr>writeHolder := Some txid,
                       readHolders := fmdrop txid (readHolders (lock_of kv key))\<rparr>)"
  define kv' where "kv' = snd (KVService_Put key val txid kv)"
  have l: "locks kv' = (if writeHolder (lock_of kv key) = Some txid then locks kv
                  else (locks kv)(key \<mapsto> li'))"
    and t: "transactions kv' = (transactions kv)(txid \<mapsto>
                  log_of kv txid @ [\<lparr>OpType = ''PUT'', Key = key, Value = val\<rparr>])"
    by (simp_all add: kv'_def li'_def KVService_Put_ok [OF False])
  have "logged kv'"
  proof (rule logged_step [OF assms, where key = key and txid = txid and li' = li'
        and opn = "\<lparr>OpType = ''PUT'', Key = key, Value = val\<rparr>"])
    show "\<And>t. holds t li' \<Longrightarrow> t = txid \<or> holds t (lock_of kv key)"
      by (auto simp: li'_def holds_def readers_def split: if_splits)
    show "locks kv' key = Some li'"
      by (cases "writeHolder (lock_of kv key) = Some txid")
         (simp_all add: l li'_def lock_of_writer_present [of kv key txid])
    show "\<And>k. k \<noteq> key \<Longrightarrow> locks kv' k = locks kv k"
      by (simp add: l)
    show "\<And>t. log_of kv' t = (if t = txid
        then log_of kv txid @ [\<lparr>OpType = ''PUT'', Key = key, Value = val\<rparr>] else log_of kv t)"
      by (simp add: log_of_def t)
  qed simp
  then show ?thesis by (simp add: kv'_def)
qed

lemma logged_Commit:
  assumes "logged kv"
  shows "logged (snd (KVService_Commit txid lead kv))"
proof -
  have "logged (releaseLocks txid kv)" using assms by (rule logged_releaseLocks)
  moreover have "locks (snd (KVService_Commit txid lead kv)) = locks (releaseLocks txid kv)"
    by (auto simp: KVService_Commit_def Let_def releaseLocks_locks log_of_def split: option.splits)
  moreover have "transactions (snd (KVService_Commit txid lead kv)) = transactions (releaseLocks txid kv)"
    by (auto simp: KVService_Commit_def Let_def releaseLocks_transactions split: option.splits)
  ultimately show ?thesis by (simp add: logged_cong [of "snd (KVService_Commit txid lead kv)" "releaseLocks txid kv"])
qed

lemma logged_Abort:
  assumes "logged kv"
  shows "logged (snd (KVService_Abort txid kv))"
  using logged_releaseLocks [OF assms, of txid]
  by (simp add: KVService_Abort_def)

lemma logged_New: "logged NewKVService"
  by (simp add: logged_def NewKVService_def)

lemma logged_serve: "logged kv \<Longrightarrow> logged (serve req kv)"
  by (cases req) (simp_all add: logged_Get logged_Put logged_Commit logged_Abort)

lemma logged_serve_all: "logged kv \<Longrightarrow> logged (serve_all reqs kv)"
  unfolding serve_all_def
  by (induction reqs arbitrary: kv) (simp_all add: logged_serve)


lemma logged_kv_example: "logged kv_example"
  unfolding kv_example_def by (intro logged_serve_all logged_New)

lemma Get_result_iff:
  "(\<exists>e. fst (KVService_Get key txid kv) = Err e) \<longleftrightarrow> read_conflict kv key txid"
  by (cases "read_conflict kv key txid")
     (simp_all add: KVService_Get_conflict KVService_Get_ok)

lemma Put_result_iff:
  "(\<exists>e. fst (KVService_Put key val txid kv) = Err e) \<longleftrightarrow> write_conflict kv key txid"
proof (cases "write_conflict kv key txid")
  case True
  then show ?thesis using KVService_Put_conflict [OF True, of val] by auto
next
  case False
  then show ?thesis by (simp add: KVService_Put_ok)
qed

lemma Put_ok_iff:
  "fst (KVService_Put key val txid kv) = Ok () \<longleftrightarrow> \<not> write_conflict kv key txid"
proof (cases "write_conflict kv key txid")
  case True
  then show ?thesis using KVService_Put_conflict [OF True, of val] by auto
next
  case False
  then show ?thesis by (simp add: KVService_Put_ok)
qed

lemma transactions_release_ensure:
  "transactions (releaseLocks txid (ensure_txn txid kv)) txid = None"
  by (simp add: releaseLocks_transactions)

lemma holds_none_release_ensure:
  "logged kv \<Longrightarrow> holds_none txid (releaseLocks txid (ensure_txn txid kv))"
  by (intro holds_none_releaseLocks logged_ensure_txn)

text \<open>
  Claim C5.  In a state where every held lock is logged, server \<^verbatim>\<open>Get(key, txid)\<close>
  behaves as follows.  On a lock conflict (the key is write locked by another
  transaction) it returns an error whose message contains \<open>Cannot acquire\<close>; in the state it
  leaves, \<open>txid\<close> holds no lock, has no entry in the transaction table, and the aborts
  counter is one higher.  Otherwise it returns the committed value of the key, the empty
  string when the key is absent, and has appended a GET record to the log of \<open>txid\<close>.
\<close>

theorem KVService_Get_spec:
  assumes "logged kv"
  shows "(read_conflict kv key txid \<longrightarrow>
            (\<exists>e. fst (KVService_Get key txid kv) = Err e \<and> sublist ''Cannot acquire'' e) \<and>
            holds_none txid (snd (KVService_Get key txid kv)) \<and>
            transactions (snd (KVService_Get key txid kv)) txid = None \<and>
            aborts (stats (snd (KVService_Get key txid kv))) = aborts (stats kv) + 1)
       \<and> (\<not> read_conflict kv key txid \<longrightarrow>
            fst (KVService_Get key txid kv) = Ok (case mp kv key of Some v \<Rightarrow> v | None \<Rightarrow> '''') \<and>
            transactions (snd (KVService_Get key txid kv)) txid =
              Some (log_of kv txid @ [\<lparr>OpType = ''GET'', Key = key, Value = ''''\<rparr>]))"
proof (cases "read_conflict kv key txid")
  case True
  have "sublist ''Cannot acquire'' ''Cannot acquire Read Lock, key is currently write locked''"
    by (simp add: sublist_Cons_right)
  then show ?thesis
    using True holds_none_release_ensure [OF assms, of txid]
    by (simp add: KVService_Get_conflict [OF True] transactions_release_ensure releaseLocks_stats)
next
  case False
  then show ?thesis by (simp add: KVService_Get_ok [OF False])
qed

theorem KVService_Get_spec_witness:
  "logged kv_example
   \<and> read_conflict kv_example ''k'' 2
   \<and> fst (KVService_Get ''k'' 2 kv_example) =
        Err ''Cannot acquire Read Lock, key is currently write locked''
   \<and> holds_none 2 (snd (KVService_Get ''k'' 2 kv_example))
   \<and> transactions (snd (KVService_Get ''k'' 2 kv_example)) 2 = None
   \<and> aborts (stats (snd (KVService_Get ''k'' 2 kv_example))) = 1
   \<and> read_conflict kv_example ''j'' 2 = False
   \<and> fst (KVService_Get ''j'' 2 kv_example) = Ok ''''
   \<and> transactions (snd (KVService_Get ''j'' 2 kv_example)) 2 =
        Some [\<lparr>OpType = ''GET'', Key = ''j'', Value = ''''\<rparr>]"
proof -
  have c: "read_conflict kv_example ''k'' 2" and n: "\<not> read_conflict kv_example ''j'' 2"
    by (simp_all add: read_conflict_def lock_of_def kv_example_eval)
  have e: "fst (KVService_Get ''k'' 2 kv_example) =
        Err ''Cannot acquire Read Lock, key is currently write locked''"
    by (simp add: KVService_Get_conflict [OF c])
  have s: "aborts (stats kv_example) = 0" "mp kv_example ''j'' = None" "log_of kv_example 2 = []"
    by (simp_all add: kv_example_eval log_of_def)
  show ?thesis
    using logged_kv_example KVService_Get_spec [OF logged_kv_example, of "''k''" 2]
      KVService_Get_spec [OF logged_kv_example, of "''j''" 2]
    by (simp add: c n e s)
qed

text \<open>
  Claim C10.  In a state where every held lock is logged: when \<^verbatim>\<open>Get\<close> or \<^verbatim>\<open>Put\<close>
  returns an error for \<open>txid\<close>, the state it leaves has no transaction-table entry for
  \<open>txid\<close> and no lock held by \<open>txid\<close>, and a following \<^verbatim>\<open>Get\<close> or \<^verbatim>\<open>Put\<close> of \<open>txid\<close>
  that succeeds leaves a log holding that one operation only.
\<close>

theorem conflict_leaves_no_state:
  assumes "logged kv"
  shows "(\<forall>e. fst (KVService_Get key txid kv) = Err e \<longrightarrow>
            (let kv' = snd (KVService_Get key txid kv)
             in transactions kv' txid = None \<and> holds_none txid kv' \<and>
                (\<forall>k v. fst (KVService_Get k txid kv') = Ok v \<longrightarrow>
                   transactions (snd (KVService_Get k txid kv')) txid =
                     Some [\<lparr>OpType = ''GET'', Key = k, Value = ''''\<rparr>]) \<and>
                (\<forall>k v. fst (KVService_Put k v txid kv') = Ok () \<longrightarrow>
                   transactions (snd (KVService_Put k v txid kv')) txid =
                     Some [\<lparr>OpType = ''PUT'', Key = k, Value = v\<rparr>])))
       \<and> (\<forall>e. fst (KVService_Put key val txid kv) = Err e \<longrightarrow>
            (let kv' = snd (KVService_Put key val txid kv)
             in transactions kv' txid = None \<and> holds_none txid kv' \<and>
                (\<forall>k v. fst (KVService_Get k txid kv') = Ok v \<longrightarrow>
                   transactions (snd (KVService_Get k txid kv')) txid =
                     Some [\<lparr>OpType = ''GET'', Key = k, Value = ''''\<rparr>]) \<and>
                (\<forall>k v. fst (KVService_Put k v txid kv') = Ok () \<longrightarrow>
                   transactions (snd (KVService_Put k v txid kv')) txid =
                     Some [\<lparr>OpType = ''PUT'', Key = k, Value = v\<rparr>])))"
proof -
  have fresh: "(\<forall>k v. fst (KVService_Get k txid kv') = Ok v \<longrightarrow>
                   transactions (snd (KVService_Get k txid kv')) txid =
                     Some [\<lparr>OpType = ''GET'', Key = k, Value = ''''\<rparr>]) \<and>
                (\<forall>k v. fst (KVService_Put k v txid kv') = Ok () \<longrightarrow>
                   transactions (snd (KVService_Put k v txid kv')) txid =
                     Some [\<lparr>OpType = ''PUT'', Key = k, Value = v\<rparr>])"
    if n: "transactions kv' txid = None" for kv'
  proof (intro conjI allI impI)
    fix k v
    assume "fst (KVService_Get k txid kv') = Ok v"
    then have "\<not> read_conflict kv' k txid"
      using Get_result_iff [of k txid kv'] by auto
    then show "transactions (snd (KVService_Get k txid kv')) txid =
                     Some [\<lparr>OpType = ''GET'', Key = k, Value = ''''\<rparr>]"
      by (simp add: KVService_Get_ok log_of_def n)
  next
    fix k v
    assume "fst (KVService_Put k v txid kv') = Ok ()"
    then have "\<not> write_conflict kv' k txid"
      by (simp add: Put_ok_iff)
    then show "transactions (snd (KVService_Put k v txid kv')) txid =
                     Some [\<lparr>OpType = ''PUT'', Key = k, Value = v\<rparr>]"
      by (simp add: KVService_Put_ok log_of_def n)
  qed
  have g: "transactions (snd (KVService_Get key txid kv)) txid = None \<and>
           holds_none txid (snd (KVService_Get key txid kv))"
    if "fst (KVService_Get key txid kv) = Err e" for e
  proof -
    from that have c: "read_conflict kv key txid" using Get_result_iff [of key txid kv] by blast
    show ?thesis
      using holds_none_release_ensure [OF assms, of txid]
      by (simp add: KVService_Get_conflict [OF c] transactions_release_ensure)
  qed
  have p: "transactions (snd (KVService_Put key val txid kv)) txid = None \<and>
           holds_none txid (snd (KVService_Put key val txid kv))"
    if "fst (KVService_Put key val txid kv) = Err e" for e
  proof -
    from that have c: "write_conflict kv key txid" using Put_result_iff [of key val txid kv] by blast
    show ?thesis
      using holds_none_release_ensure [OF assms, of txid] KVService_Put_conflict [OF c, of val]
      by (auto simp add: transactions_release_ensure)
  qed
  show ?thesis
    unfolding Let_def using g p fresh by blast
qed

theorem conflict_leaves_no_state_witness:
  "logged (serve (GetRequest ''j'' 2) kv_example)
   \<and> fst (KVService_Put ''k'' ''b'' 2 (serve (GetRequest ''j'' 2) kv_example)) =
       Err ''Cannot acquire Write Lock, key is currently write locked''
   \<and> transactions (serve (GetRequest ''j'' 2) kv_example) 2 =
       Some [\<lparr>OpType = ''GET'', Key = ''j'', Value = ''''\<rparr>]
   \<and> transactions (snd (KVService_Put ''k'' ''b'' 2 (serve (GetRequest ''j'' 2) kv_example))) 2 = None
   \<and> holds_none 2 (snd (KVService_Put ''k'' ''b'' 2 (serve (GetRequest ''j'' 2) kv_example)))
   \<and> fst (KVService_Get ''j'' 2
        (snd (KVService_Put ''k'' ''b'' 2 (serve (GetRequest ''j'' 2) kv_example)))) = Ok ''''
   \<and> transactions (snd (KVService_Get ''j'' 2
        (snd (KVService_Put ''k'' ''b'' 2 (serve (GetRequest ''j'' 2) kv_example))))) 2 =
       Some [\<lparr>OpType = ''GET'', Key = ''j'', Value = ''''\<rparr>]"
proof -
  define kv2 where "kv2 = serve (GetRequest ''j'' 2) kv_example"
  have lg: "logged kv2"
    unfolding kv2_def by (intro logged_serve logged_kv_example)
  have ev: "kv2 =
     \<lparr>mp = Map.empty,
      locks = [''k'' \<mapsto> \<lparr>readHolders = fmempty, writeHolder = Some 1\<rparr>,
               ''j'' \<mapsto> \<lparr>readHolders = fmupd 2 True (fmupd 1 True fmempty), writeHolder = None\<rparr>],
      transactions = [1 \<mapsto> [\<lparr>OpType = ''PUT'', Key = ''k'', Value = ''a''\<rparr>,
                              \<lparr>OpType = ''GET'', Key = ''j'', Value = ''''\<rparr>],
                      2 \<mapsto> [\<lparr>OpType = ''GET'', Key = ''j'', Value = ''''\<rparr>]],
      stats = \<lparr>puts = 1, gets = 2, commits = 0, aborts = 0\<rparr>\<rparr>"
    by (simp add: kv2_def kv_example_eval handler_defs)
  define kv3 where "kv3 = snd (KVService_Put ''k'' ''b'' 2 kv2)"
  have p: "KVService_Put ''k'' ''b'' 2 kv2 =
       (Err ''Cannot acquire Write Lock, key is currently write locked'',
        \<lparr>mp = Map.empty,
      locks = [''k'' \<mapsto> \<lparr>readHolders = fmempty, writeHolder = Some 1\<rparr>,
               ''j'' \<mapsto> \<lparr>readHolders = fmupd 1 True fmempty, writeHolder = None\<rparr>],
      transactions = [1 \<mapsto> [\<lparr>OpType = ''PUT'', Key = ''k'', Value = ''a''\<rparr>,
                              \<lparr>OpType = ''GET'', Key = ''j'', Value = ''''\<rparr>]],
      stats = \<lparr>puts = 1, gets = 2, commits = 0, aborts = 1\<rparr>\<rparr>)"
    by (simp add: ev handler_defs fmdrop_fmupd fcard.rep_eq)
  have e: "fst (KVService_Put ''k'' ''b'' 2 kv2) =
      Err ''Cannot acquire Write Lock, key is currently write locked''"
    by (simp add: p)
  have n: "\<not> read_conflict kv3 ''j'' 2"
    by (simp add: kv3_def p read_conflict_def lock_of_def)
  have m: "mp kv3 ''j'' = None"
    by (simp add: kv3_def p)
  have g: "fst (KVService_Get ''j'' 2 kv3) = Ok ''''"
    by (simp add: KVService_Get_ok [OF n] m)
  have t: "transactions kv2 2 = Some [\<lparr>OpType = ''GET'', Key = ''j'', Value = ''''\<rparr>]"
    by (simp add: ev)
  have "logged kv2
   \<and> fst (KVService_Put ''k'' ''b'' 2 kv2) =
       Err ''Cannot acquire Write Lock, key is currently write locked''
   \<and> transactions kv2 2 = Some [\<lparr>OpType = ''GET'', Key = ''j'', Value = ''''\<rparr>]
   \<and> transactions kv3 2 = None
   \<and> holds_none 2 kv3
   \<and> fst (KVService_Get ''j'' 2 kv3) = Ok ''''
   \<and> transactions (snd (KVService_Get ''j'' 2 kv3)) 2 =
       Some [\<lparr>OpType = ''GET'', Key = ''j'', Value = ''''\<rparr>]"
    using lg conflict_leaves_no_state [OF lg, where key = "''k''" and txid = 2 and val = "''b''"] e g t
    unfolding Let_def kv3_def [symmetric]
    by blast
  then show ?thesis
    by (simp add: kv3_def kv2_def)
qed


lemma apply_ops_fold:
  "apply_ops ops m =
     fold (\<lambda>opn m. m(Key opn \<mapsto> Value opn)) (filter (\<lambda>opn. OpType opn = ''PUT'') ops) m"
  by (induction ops arbitrary: m) simp_all

lemma apply_ops_lookup:
  "apply_ops ops m k = (if puts_on k ops = [] then m k else Some (last (puts_on k ops)))"
  by (induction ops arbitrary: m) (simp_all add: puts_on_def)

lemma Commit_locks:
  "locks (snd (KVService_Commit txid lead kv)) = locks (releaseLocks txid kv)"
  by (auto simp: KVService_Commit_def Let_def releaseLocks_locks log_of_def split: option.splits)

lemma Commit_transactions:
  "transactions (snd (KVService_Commit txid lead kv)) = (transactions kv)(txid := None)"
  by (auto simp: KVService_Commit_def Let_def releaseLocks_transactions split: option.splits)

lemma Commit_mp:
  "mp (snd (KVService_Commit txid lead kv)) = apply_ops (log_of kv txid) (mp kv)"
  by (auto simp: KVService_Commit_def Let_def releaseLocks_mp log_of_def split: option.splits)

lemma Commit_unknown:
  "transactions kv txid = None \<Longrightarrow> KVService_Commit txid lead kv = (Ok (), kv)"
  by (simp add: KVService_Commit_def releaseLocks_def fun_upd_idem)

text \<open>
  Claim C3.  In a state where every held lock is logged, server \<^verbatim>\<open>Commit\<close> always
  returns success.  For a transaction with a recorded log it applies the PUT operations of
  the log, and only them, to the store in log order, so that a key written in the log has
  the value of its last PUT and any other key keeps its value; afterwards \<open>txid\<close> holds
  no lock and has no entry in the transaction table.  For a transaction unknown to the
  server the state is unchanged.
\<close>

theorem Commit_spec:
  assumes "logged kv"
  shows "fst (KVService_Commit txid lead kv) = Ok ()
       \<and> (\<forall>ops. transactions kv txid = Some ops \<longrightarrow>
            mp (snd (KVService_Commit txid lead kv)) =
              fold (\<lambda>opn m. m(Key opn \<mapsto> Value opn))
                (filter (\<lambda>opn. OpType opn = ''PUT'') ops) (mp kv) \<and>
            (\<forall>k. mp (snd (KVService_Commit txid lead kv)) k =
                   (if puts_on k ops = [] then mp kv k else Some (last (puts_on k ops)))))
       \<and> holds_none txid (snd (KVService_Commit txid lead kv))
       \<and> transactions (snd (KVService_Commit txid lead kv)) txid = None
       \<and> (transactions kv txid = None \<longrightarrow> snd (KVService_Commit txid lead kv) = kv)"
proof -
  have h: "holds_none txid (snd (KVService_Commit txid lead kv))"
    using holds_none_releaseLocks [OF assms, of txid]
    by (simp add: holds_none_def Commit_locks)
  have m: "\<And>ops. transactions kv txid = Some ops \<Longrightarrow>
            mp (snd (KVService_Commit txid lead kv)) = apply_ops ops (mp kv)"
    by (simp add: Commit_mp log_of_def)
  show ?thesis
    using h
    by (auto simp: m apply_ops_lookup Commit_transactions Commit_unknown
        simp flip: apply_ops_fold)
       (simp add: KVService_Commit_def)
qed

theorem Commit_spec_witness:
  "logged kv_example
   \<and> transactions kv_example 1 =
       Some [\<lparr>OpType = ''PUT'', Key = ''k'', Value = ''a''\<rparr>,
             \<lparr>OpType = ''GET'', Key = ''j'', Value = ''''\<rparr>]
   \<and> fst (KVService_Commit 1 True kv_example) = Ok ()
   \<and> mp (snd (KVService_Commit 1 True kv_example)) ''k'' = Some ''a''
   \<and> mp (snd (KVService_Commit 1 True kv_example)) ''j'' = None
   \<and> holds_none 1 (snd (KVService_Commit 1 True kv_example))
   \<and> transactions (snd (KVService_Commit 1 True kv_example)) 1 = None
   \<and> transactions kv_example 2 = None
   \<and> snd (KVService_Commit 2 True kv_example) = kv_example"
proof -
  have t: "transactions kv_example 1 =
       Some [\<lparr>OpType = ''PUT'', Key = ''k'', Value = ''a''\<rparr>,
             \<lparr>OpType = ''GET'', Key = ''j'', Value = ''''\<rparr>]"
    and t2: "transactions kv_example 2 = None"
    and m: "mp kv_example = Map.empty"
    by (simp_all add: kv_example_eval)
  show ?thesis
    using logged_kv_example Commit_spec [OF logged_kv_example, of 1 True]
      Commit_spec [OF logged_kv_example, of 2 True]
    by (simp add: t t2 m puts_on_def)
qed

lemma Put_mp: "mp (snd (KVService_Put key val txid kv)) = mp kv"
proof (cases "write_conflict kv key txid")
  case True
  then show ?thesis using KVService_Put_conflict [OF True, of val] by (auto simp: releaseLocks_mp)
next
  case False
  then show ?thesis by (simp add: KVService_Put_ok)
qed

lemma Get_mp: "mp (snd (KVService_Get key txid kv)) = mp kv"
  by (cases "read_conflict kv key txid")
     (simp_all add: KVService_Get_ok KVService_Get_conflict releaseLocks_mp)

lemma Abort_mp: "mp (snd (KVService_Abort txid kv)) = mp kv"
  by (simp add: KVService_Abort_def releaseLocks_mp)

lemma serve_mp: "\<not> is_commit req \<Longrightarrow> mp (serve req kv) = mp kv"
  by (cases req) (simp_all add: Get_mp Put_mp Abort_mp)

lemma serve_all_mp: "\<forall>req \<in> set reqs. \<not> is_commit req \<Longrightarrow> mp (serve_all reqs kv) = mp kv"
  unfolding serve_all_def
  by (induction reqs arbitrary: kv) (simp_all add: serve_mp)

text \<open>
  Claim C4.  The store \<^verbatim>\<open>mp\<close> is changed by \<^verbatim>\<open>Commit\<close> only.  \<^verbatim>\<open>Put\<close> leaves it
  unchanged, and a successful \<^verbatim>\<open>Put\<close> appends its PUT record to the log of the
  transaction.  \<^verbatim>\<open>Abort\<close> leaves it unchanged, deletes the log, and (where every held lock
  is logged) leaves the transaction without a lock.  \<^verbatim>\<open>Get\<close> leaves it unchanged and
  returns the value it holds.  So a sequence of requests without a Commit leaves the store
  as it was.
\<close>

theorem store_mutated_only_by_Commit:
  "mp (snd (KVService_Put key val txid kv)) = mp kv
   \<and> (fst (KVService_Put key val txid kv) = Ok () \<longrightarrow>
        transactions (snd (KVService_Put key val txid kv)) txid =
          Some (log_of kv txid @ [\<lparr>OpType = ''PUT'', Key = key, Value = val\<rparr>]))
   \<and> mp (snd (KVService_Abort txid kv)) = mp kv
   \<and> transactions (snd (KVService_Abort txid kv)) txid = None
   \<and> (logged kv \<longrightarrow> holds_none txid (snd (KVService_Abort txid kv)))
   \<and> mp (snd (KVService_Get key txid kv)) = mp kv
   \<and> (\<forall>v. fst (KVService_Get key txid kv) = Ok v \<longrightarrow>
          v = (case mp kv key of Some x \<Rightarrow> x | None \<Rightarrow> ''''))
   \<and> ((\<forall>req \<in> set reqs. \<not> is_commit req) \<longrightarrow> mp (serve_all reqs kv) = mp kv)"
proof -
  have p: "fst (KVService_Put key val txid kv) = Ok () \<Longrightarrow>
        transactions (snd (KVService_Put key val txid kv)) txid =
          Some (log_of kv txid @ [\<lparr>OpType = ''PUT'', Key = key, Value = val\<rparr>])"
    by (simp add: Put_ok_iff KVService_Put_ok)
  have g: "\<And>v. fst (KVService_Get key txid kv) = Ok v \<Longrightarrow>
          v = (case mp kv key of Some x \<Rightarrow> x | None \<Rightarrow> '''')"
    by (cases "read_conflict kv key txid")
       (simp_all add: KVService_Get_ok KVService_Get_conflict)
  have a: "logged kv \<Longrightarrow> holds_none txid (snd (KVService_Abort txid kv))"
    using holds_none_releaseLocks [of kv txid] by (simp add: KVService_Abort_def)
  show ?thesis
    using p g a
    by (simp add: Put_mp Get_mp Abort_mp serve_all_mp)
       (simp add: KVService_Abort_def releaseLocks_transactions)
qed

theorem store_mutated_only_by_Commit_witness:
  "fst (KVService_Put ''j'' ''v'' 1 kv_example) = Ok ()
   \<and> mp (snd (KVService_Put ''j'' ''v'' 1 kv_example)) = mp kv_example
   \<and> transactions (snd (KVService_Put ''j'' ''v'' 1 kv_example)) 1 =
       Some [\<lparr>OpType = ''PUT'', Key = ''k'', Value = ''a''\<rparr>,
             \<lparr>OpType = ''GET'', Key = ''j'', Value = ''''\<rparr>,
             \<lparr>OpType = ''PUT'', Key = ''j'', Value = ''v''\<rparr>]
   \<and> logged kv_example
   \<and> mp (snd (KVService_Abort 1 kv_example)) = mp kv_example
   \<and> holds_none 1 (snd (KVService_Abort 1 kv_example))
   \<and> fst (KVService_Get ''j'' 1 kv_example) = Ok ''''
   \<and> is_commit (PutRequest ''j'' ''v'' 1) = False
   \<and> is_commit (AbortRequest 1) = False
   \<and> mp (serve_all [PutRequest ''j'' ''v'' 1, AbortRequest 1] kv_example) = mp kv_example"
proof -
  have n: "\<not> write_conflict kv_example ''j'' 1"
    by (simp add: write_conflict_def lock_of_def kv_example_eval len_map_def index_bool_def
        fcard.rep_eq)
  have p: "fst (KVService_Put ''j'' ''v'' 1 kv_example) = Ok ()"
    by (simp add: KVService_Put_ok [OF n])
  have r: "\<not> read_conflict kv_example ''j'' 1"
    by (simp add: read_conflict_def lock_of_def kv_example_eval)
  have m: "mp kv_example ''j'' = None"
    by (simp add: kv_example_eval)
  have g: "fst (KVService_Get ''j'' 1 kv_example) = Ok ''''"
    by (simp add: KVService_Get_ok [OF r] m)
  have l: "log_of kv_example 1 = [\<lparr>OpType = ''PUT'', Key = ''k'', Value = ''a''\<rparr>,
             \<lparr>OpType = ''GET'', Key = ''j'', Value = ''''\<rparr>]"
    by (simp add: log_of_def kv_example_eval)
  show ?thesis
    using logged_kv_example
      store_mutated_only_by_Commit [of "''j''" "''v''" 1 kv_example
        "[PutRequest ''j'' ''v'' 1, AbortRequest 1]"]
    by (simp add: p g l)
qed

section \<open>The stored read-holder values are true\<close>

lemma holders_true_release_lock: "holders_true li \<Longrightarrow> holders_true (release_lock txid li)"
  by (auto simp: holders_true_def release_lock_def Let_def fmpred_iff)

lemma holders_ok_releaseLocks: "holders_ok kv \<Longrightarrow> holders_ok (releaseLocks txid kv)"
  by (auto simp: holders_ok_def releaseLocks_locks holders_true_release_lock split: if_splits)

lemma holders_true_lock_of: "holders_ok kv \<Longrightarrow> holders_true (lock_of kv key)"
  by (auto simp: holders_ok_def lock_of_def holders_true_def NewLockInfo_def split: option.splits)

lemma holders_ok_Get: 
  assumes "holders_ok kv" shows "holders_ok (snd (KVService_Get key txid kv))"
proof (cases "read_conflict kv key txid")
  case True
  have "holders_ok (ensure_txn txid kv)" using assms by (simp add: holders_ok_def)
  then have "holders_ok (releaseLocks txid (ensure_txn txid kv))" by (rule holders_ok_releaseLocks)
  then show ?thesis by (simp add: KVService_Get_conflict [OF True] holders_ok_def)
next
  case False
  show ?thesis
    using assms holders_true_lock_of [OF assms, of key]
    by (auto simp: KVService_Get_ok [OF False] holders_ok_def holders_true_def)
qed

lemma holders_ok_Put: 
  assumes "holders_ok kv" shows "holders_ok (snd (KVService_Put key val txid kv))"
proof (cases "write_conflict kv key txid")
  case True
  have "holders_ok (ensure_txn txid kv)" using assms by (simp add: holders_ok_def)
  then have "holders_ok (releaseLocks txid (ensure_txn txid kv))" by (rule holders_ok_releaseLocks)
  then show ?thesis using KVService_Put_conflict [OF True, of val] by (auto simp: holders_ok_def)
next
  case False
  show ?thesis
    using assms holders_true_lock_of [OF assms, of key]
    by (auto simp: KVService_Put_ok [OF False] holders_ok_def holders_true_def fmpred_iff)
qed

lemma holders_ok_serve: "holders_ok kv \<Longrightarrow> holders_ok (serve req kv)"
proof (cases req)
  case (CommitRequest t l)
  assume "holders_ok kv"
  then have "holders_ok (releaseLocks t kv)" by (rule holders_ok_releaseLocks)
  then show ?thesis by (simp add: CommitRequest holders_ok_def Commit_locks)
next
  case (AbortRequest t)
  assume "holders_ok kv"
  then have "holders_ok (releaseLocks t kv)" by (rule holders_ok_releaseLocks)
  then show ?thesis by (simp add: AbortRequest holders_ok_def KVService_Abort_def)
qed (simp_all add: holders_ok_Get holders_ok_Put)

lemma holders_ok_serve_all: "holders_ok kv \<Longrightarrow> holders_ok (serve_all reqs kv)"
  unfolding serve_all_def
  by (induction reqs arbitrary: kv) (simp_all add: holders_ok_serve)

lemma holders_ok_New: "holders_ok NewKVService"
  by (simp add: holders_ok_def NewKVService_def)


section \<open>Client: error classification and the write set\<close>

lemma Abort_loop_targets_subset:
  "set (abort_targets (snd (Abort_loop txid ar order))) \<subseteq> set order"
  by (induction order) (auto split: reply.splits prod.splits)

lemma Abort_loop_all:
  "\<forall>c \<in> set order. ar c = Replied () \<Longrightarrow>
   Abort_loop txid ar order = (Ok (), map (\<lambda>c. (c, AbortRequest txid)) order)"
  by (induction order) (auto split: reply.splits prod.splits)

lemma abort_targets_map [simp]:
  "abort_targets (map (\<lambda>c. (c, AbortRequest txid)) order) = order"
  by (induction order) auto

lemma getServer_Ok:
  "allServers txn \<noteq> [] \<Longrightarrow>
   getServer txn key =
     (Ok (allServers txn ! (unat (fnv32a key) mod length (allServers txn))),
      txn\<lparr>usedServers := Set_Add (usedServers txn)
             (allServers txn ! (unat (fnv32a key) mod length (allServers txn)))\<rparr>)"
  by (simp add: getServer_def serverFromKey_def)

lemma getServer_eq:
  "allServers txn \<noteq> [] \<Longrightarrow> getServer txn key = (Ok (server_of txn key), with_server txn key)"
  by (simp add: getServer_Ok server_of_def with_server_def)

lemma Txn_Abort_facts:
  assumes "range_ok ro (values_GoSet (usedServers txn))"
  shows "set (abort_targets (snd (Txn_Abort txn ro ar))) \<subseteq> participants txn"
    and "id_Txn txn \<noteq> None \<Longrightarrow> \<forall>c \<in> participants txn. ar c = Replied () \<Longrightarrow>
         set (abort_targets (snd (Txn_Abort txn ro ar))) = participants txn"
  using assms Abort_loop_targets_subset [of _ ar "ro (values_GoSet (usedServers txn))"]
  by (auto simp: Txn_Abort_def range_ok_def participants_def Abort_loop_all split: option.splits)

lemma txn_example_eval:
  "txn_example = \<lparr>allServers = [0], usedServers = NewSet, id_Txn = Some 7, writeSet = fmempty\<rparr>"
  by (simp add: txn_example_def zero_Txn_def Begin_def)

lemma server_of_txn_example: "server_of txn_example key = 0"
  by (simp add: server_of_def txn_example_eval)

lemma with_server_txn_example:
  "with_server txn_example key =
     \<lparr>allServers = [0], usedServers = \<lparr>values_GoSet = fmupd 0 () fmempty\<rparr>,
      id_Txn = Some 7, writeSet = fmempty\<rparr>"
  by (simp add: with_server_def server_of_txn_example Set_Add_def) (simp add: txn_example_eval NewSet_def)

text \<open>
  Claim C6, as the code has it.  Let \<^verbatim>\<open>Txn.Get\<close> (on a key that is not in the write
  set) or \<^verbatim>\<open>Txn.Put\<close> of a begun transaction with a server list receive an RPC error
  with message \<open>msg\<close>.  If \<open>msg\<close> contains \<open>Cannot acquire\<close> or contains \<open>Abort:\<close>
  (anywhere, not only at its start), the call returns the error
  \<open>lock conflict: msg\<close> and the one request sent is the Get or Put itself: no Abort is
  sent.  Otherwise it returns the error \<open>server-side error raised: msg\<close> after the
  requests of \<^verbatim>\<open>Txn.Abort\<close>: these go to participants only (the server of the key is
  one), and to every participant when no Abort call fails.
\<close>

theorem Txn_error_classification:
  assumes idt: "id_Txn txn = Some txid"
    and srv: "allServers txn \<noteq> []"
    and ro: "range_ok ro (values_GoSet (usedServers (with_server txn key)))"
  shows "(is_lock_conflict msg \<longleftrightarrow> sublist ''Cannot acquire'' msg \<or> sublist ''Abort:'' msg)
       \<and> (fmlookup (writeSet txn) key = None \<longrightarrow>
           (is_lock_conflict msg \<longrightarrow>
              Txn_Get txn key (Failed msg) ro ar =
                (Err (''lock conflict: '' @ msg), with_server txn key,
                 [(server_of txn key, GetRequest key txid)])) \<and>
           (\<not> is_lock_conflict msg \<longrightarrow>
              Txn_Get txn key (Failed msg) ro ar =
                (Err (''server-side error raised: '' @ msg), with_server txn key,
                 (server_of txn key, GetRequest key txid) #
                   snd (Txn_Abort (with_server txn key) ro ar))))
       \<and> (is_lock_conflict msg \<longrightarrow>
              Txn_Put txn key val (Failed msg) ro ar =
                (Err (''lock conflict: '' @ msg), with_server txn key,
                 [(server_of txn key, PutRequest key val txid)]))
       \<and> (\<not> is_lock_conflict msg \<longrightarrow>
              Txn_Put txn key val (Failed msg) ro ar =
                (Err (''server-side error raised: '' @ msg), with_server txn key,
                 (server_of txn key, PutRequest key val txid) #
                   snd (Txn_Abort (with_server txn key) ro ar)))
       \<and> set (abort_targets (snd (Txn_Abort (with_server txn key) ro ar)))
            \<subseteq> participants (with_server txn key)
       \<and> ((\<forall>c \<in> participants (with_server txn key). ar c = Replied ()) \<longrightarrow>
            set (abort_targets (snd (Txn_Abort (with_server txn key) ro ar))) =
              participants (with_server txn key))
       \<and> server_of txn key \<in> participants (with_server txn key)"
proof -
  have i: "id_Txn (with_server txn key) \<noteq> None" using idt by (simp add: with_server_def)
  note f = Txn_Abort_facts [OF ro, of ar]
  have p: "server_of txn key \<in> participants (with_server txn key)"
    by (simp add: participants_def with_server_def Set_Add_def)
  have g: "fmlookup (writeSet txn) key = None \<Longrightarrow> Txn_Get txn key (Failed msg) ro ar =
      (if is_lock_conflict msg
       then (Err (''lock conflict: '' @ msg), with_server txn key,
             [(server_of txn key, GetRequest key txid)])
       else (Err (''server-side error raised: '' @ msg), with_server txn key,
             (server_of txn key, GetRequest key txid) #
               snd (Txn_Abort (with_server txn key) ro ar)))"
    by (simp add: Txn_Get_def idt getServer_eq [OF srv] Client_Get_def split: prod.splits)
  have u: "Txn_Put txn key val (Failed msg) ro ar =
      (if is_lock_conflict msg
       then (Err (''lock conflict: '' @ msg), with_server txn key,
             [(server_of txn key, PutRequest key val txid)])
       else (Err (''server-side error raised: '' @ msg), with_server txn key,
             (server_of txn key, PutRequest key val txid) #
               snd (Txn_Abort (with_server txn key) ro ar)))"
    by (simp add: Txn_Put_def idt getServer_eq [OF srv] Client_Put_def split: prod.splits)
  show ?thesis
    using f(1) f(2) [OF i] p
    by (simp add: g u) (simp add: is_lock_conflict_def strings_Contains_def)
qed

theorem Txn_error_classification_witness:
  "id_Txn txn_example = Some 7
   \<and> allServers txn_example \<noteq> []
   \<and> range_ok range_sorted (values_GoSet (usedServers (with_server txn_example ''k'')))
   \<and> fmlookup (writeSet txn_example) ''k'' = None
   \<and> is_lock_conflict ''Cannot acquire Read Lock, key is currently write locked''
   \<and> Txn_Get txn_example ''k''
        (Failed ''Cannot acquire Read Lock, key is currently write locked'')
        range_sorted all_replied =
       (Err ''lock conflict: Cannot acquire Read Lock, key is currently write locked'',
        with_server txn_example ''k'', [(0, GetRequest ''k'' 7)])
   \<and> is_lock_conflict ''connection is shut down'' = False
   \<and> Txn_Put txn_example ''k'' ''v'' (Failed ''connection is shut down'')
        range_sorted all_replied =
       (Err ''server-side error raised: connection is shut down'',
        with_server txn_example ''k'', [(0, PutRequest ''k'' ''v'' 7), (0, AbortRequest 7)])"
proof -
  have i: "id_Txn txn_example = Some 7" and s: "allServers txn_example \<noteq> []"
    and w: "fmlookup (writeSet txn_example) ''k'' = None"
    by (simp_all add: txn_example_eval)
  have r: "range_ok range_sorted (values_GoSet (usedServers (with_server txn_example ''k'')))"
    by (simp add: range_ok_def range_sorted_def with_server_txn_example)
  have c1: "is_lock_conflict ''Cannot acquire Read Lock, key is currently write locked''"
    by (simp add: is_lock_conflict_def strings_Contains_def)
  have c2: "\<not> is_lock_conflict ''connection is shut down''"
    by (simp add: is_lock_conflict_def strings_Contains_def sublist_Cons_right)
  have a: "snd (Txn_Abort (with_server txn_example ''k'') range_sorted all_replied) =
             [(0, AbortRequest 7)]"
    by (simp add: with_server_txn_example Txn_Abort_def range_sorted_def all_replied_def)
  show ?thesis
    using i s r w c1 c2
      Txn_error_classification [OF i s r,
        of "''Cannot acquire Read Lock, key is currently write locked''" all_replied "''v''"]
      Txn_error_classification [OF i s r, of "''connection is shut down''" all_replied "''v''"]
    by (simp add: server_of_txn_example a)
qed

text \<open>
  The claim as the specification words it fails on a message that contains \<open>Abort:\<close>
  without starting with it (and has no \<open>Cannot acquire\<close>): the specification makes it a
  fatal error with Aborts sent, the code a lock conflict with no Abort.
\<close>

theorem Txn_error_classification_counterexample:
  "\<not> strings_Contains ''rpc: Abort: shutdown'' ''Cannot acquire''
   \<and> \<not> prefix ''Abort:'' ''rpc: Abort: shutdown''
   \<and> fst (Txn_Get txn_example ''k'' (Failed ''rpc: Abort: shutdown'') range_sorted all_replied) =
       Err ''lock conflict: rpc: Abort: shutdown''
   \<and> abort_targets (snd (snd (Txn_Get txn_example ''k'' (Failed ''rpc: Abort: shutdown'')
        range_sorted all_replied))) = []"
  by (simp add: strings_Contains_def sublist_Cons_right txn_example_eval Txn_Get_def
      getServer_def serverFromKey_def Client_Get_def is_lock_conflict_def)


lemma Txn_Get_cached:
  "id_Txn txn = Some txid \<Longrightarrow> fmlookup (writeSet txn) key = Some v \<Longrightarrow>
   Txn_Get txn key rep ro ar = (Ok v, txn, [])"
  by (simp add: Txn_Get_def)

lemma Txn_Put_Ok:
  assumes "fst (Txn_Put txn key val rep ro ar) = Ok ()"
  shows "id_Txn (fst (snd (Txn_Put txn key val rep ro ar))) \<noteq> None \<and>
         fmlookup (writeSet (fst (snd (Txn_Put txn key val rep ro ar)))) key = Some val"
  using assms
  by (auto simp: Txn_Put_def getServer_def Client_Put_def
      split: option.splits prod.splits result.splits reply.splits if_splits)

lemma Txn_Put_not_Ok:
  assumes "fst (Txn_Put txn key val rep ro ar) \<noteq> Ok ()"
  shows "writeSet (fst (snd (Txn_Put txn key val rep ro ar))) = writeSet txn"
  using assms
  by (auto simp: Txn_Put_def getServer_def Client_Put_def
      split: option.splits prod.splits result.splits reply.splits if_splits)

text \<open>
  Claim C7.  When \<^verbatim>\<open>Txn.Put(key, val)\<close> succeeds (for any value, the empty string
  too), a following \<^verbatim>\<open>Txn.Get(key)\<close> on the resulting transaction returns \<open>val\<close>,
  whatever the servers would answer, leaves the transaction as it is and sends no request:
  the value comes from the write set, found by the presence of the key.  When
  \<^verbatim>\<open>Txn.Put\<close> does not succeed, the write set is unchanged.  It succeeds exactly when the
  transaction has begun, has a server, and the server accepted the Put.
\<close>

theorem read_your_own_writes:
  "(fst (Txn_Put txn key val rep ro ar) = Ok () \<longrightarrow>
      Txn_Get (fst (snd (Txn_Put txn key val rep ro ar))) key rep' ro' ar' =
        (Ok val, fst (snd (Txn_Put txn key val rep ro ar)), []))
   \<and> (fst (Txn_Put txn key val rep ro ar) \<noteq> Ok () \<longrightarrow>
      writeSet (fst (snd (Txn_Put txn key val rep ro ar))) = writeSet txn)
   \<and> (fst (Txn_Put txn key val rep ro ar) = Ok () \<longleftrightarrow>
      id_Txn txn \<noteq> None \<and> allServers txn \<noteq> [] \<and> rep = Replied ())"
proof (intro conjI impI)
  assume ok: "fst (Txn_Put txn key val rep ro ar) = Ok ()"
  from Txn_Put_Ok [OF ok] obtain txid where
    "id_Txn (fst (snd (Txn_Put txn key val rep ro ar))) = Some txid"
    "fmlookup (writeSet (fst (snd (Txn_Put txn key val rep ro ar)))) key = Some val"
    by auto
  then show "Txn_Get (fst (snd (Txn_Put txn key val rep ro ar))) key rep' ro' ar' =
        (Ok val, fst (snd (Txn_Put txn key val rep ro ar)), [])"
    by (rule Txn_Get_cached)
next
  assume "fst (Txn_Put txn key val rep ro ar) \<noteq> Ok ()"
  then show "writeSet (fst (snd (Txn_Put txn key val rep ro ar))) = writeSet txn"
    by (rule Txn_Put_not_Ok)
next
  show "fst (Txn_Put txn key val rep ro ar) = Ok () \<longleftrightarrow>
      id_Txn txn \<noteq> None \<and> allServers txn \<noteq> [] \<and> rep = Replied ()"
    by (auto simp: Txn_Put_def getServer_def serverFromKey_def Client_Put_def
      split: option.splits prod.splits result.splits reply.splits if_splits)
qed

theorem read_your_own_writes_witness:
  "fst (Txn_Put txn_example ''k'' '''' (Replied ()) range_sorted all_replied) = Ok ()
   \<and> fst (Txn_Get (fst (snd (Txn_Put txn_example ''k'' '''' (Replied ()) range_sorted all_replied)))
        ''k'' (Failed ''connection is shut down'') range_sorted all_replied) = Ok ''''
   \<and> snd (snd (Txn_Get
        (fst (snd (Txn_Put txn_example ''k'' '''' (Replied ()) range_sorted all_replied)))
        ''k'' (Failed ''connection is shut down'') range_sorted all_replied)) = []
   \<and> fst (Txn_Put txn_example ''k'' ''v'' (Failed ''connection is shut down'')
        range_sorted all_replied) \<noteq> Ok ()
   \<and> writeSet (fst (snd (Txn_Put txn_example ''k'' ''v'' (Failed ''connection is shut down'')
        range_sorted all_replied))) = fmempty"
proof -
  have i: "id_Txn txn_example \<noteq> None" and s: "allServers txn_example \<noteq> []"
    and w: "writeSet txn_example = fmempty"
    by (simp_all add: txn_example_eval)
  show ?thesis
    using read_your_own_writes [of txn_example "''k''" "''''" "Replied ()" range_sorted all_replied
        "Failed ''connection is shut down''" range_sorted all_replied]
      read_your_own_writes [of txn_example "''k''" "''v''" "Failed ''connection is shut down''"
        range_sorted all_replied "Failed ''connection is shut down''" range_sorted all_replied]
    by (simp add: i s w)
qed

text \<open>
  Claim C8, as the code has it.  \<^verbatim>\<open>Begin\<close> sets the id of the transaction to the value
  that the random generator returns, whatever it is (the absence of a transaction is the
  nil id, not the id 0), and leaves the write set and the set of used servers empty.
\<close>

theorem Begin_spec:
  "id_Txn (Begin txn servers r) = Some r \<and> writeSet (Begin txn servers r) = fmempty \<and>
   usedServers (Begin txn servers r) = NewSet \<and> allServers (Begin txn servers r) = servers \<and>
   fmdom' (values_GoSet (usedServers (Begin txn servers r))) = {}"
  by (simp add: Begin_def NewSet_def)

text \<open>With the draw 0 the id of the begun transaction is 0.\<close>

theorem Begin_zero_id:
  "id_Txn (Begin zero_Txn [0] 0) = Some 0"
  by (simp add: Begin_def)

lemma int64_id: "- 9223372036854775808 \<le> x \<Longrightarrow> x < 9223372036854775808 \<Longrightarrow> int64 x = x"
  by (simp add: int64_def)

lemma transfer_backoffTime_eq:
  assumes "retry < 14"
  shows "transfer_backoffTime retry = min (20 * 2 ^ retry * Millisecond) (2 * Second)"
proof -
  have b: "(2::int) ^ retry \<le> 8192"
    using power_increasing [of retry 13 "2::int"] assms by simp
  have p: "(1::int) \<le> 2 ^ retry" by simp
  have s: "shl1 retry = 2 ^ retry"
    unfolding shl1_def using b p by (intro int64_id) linarith+
  have s2: "int64 (20 * 2 ^ retry) = 20 * 2 ^ retry"
    using b p by (intro int64_id) linarith+
  have s3: "int64 (20 * 2 ^ retry * Millisecond) = 20 * 2 ^ retry * Millisecond"
    unfolding Millisecond_def using b p by (intro int64_id) linarith+
  show ?thesis
    by (simp add: transfer_backoffTime_def s s2 s3 Let_def min_def)
qed

lemma check_backoffTime_eq:
  assumes "retry < 10"
  shows "check_backoffTime retry = 50 * 2 ^ retry * Millisecond"
proof -
  have b: "(2::int) ^ retry \<le> 512"
    using power_increasing [of retry 9 "2::int"] assms by simp
  have p: "(1::int) \<le> 2 ^ retry" by simp
  have s: "shl1 retry = 2 ^ retry"
    unfolding shl1_def using b p by (intro int64_id) linarith+
  have s2: "int64 (50 * 2 ^ retry) = 50 * 2 ^ retry"
    using b p by (intro int64_id) linarith+
  have s3: "int64 (50 * 2 ^ retry * Millisecond) = 50 * 2 ^ retry * Millisecond"
    unfolding Millisecond_def using b p by (intro int64_id) linarith+
  show ?thesis
    by (simp add: check_backoffTime_def s s2 s3)
qed

lemma sleep_jitter:
  assumes lo: "2 \<le> b" and hi: "b < 4611686018427387904"
  shows "\<exists>jitter. Intn (b sdiv 2) r = Ok jitter \<and> 0 \<le> jitter \<and> jitter < b div 2 \<and>
           int64 (b + jitter) = b + jitter"
proof -
  have d: "b sdiv 2 = b div 2" using lo by (simp add: signed_divide_int_def)
  have pos: "0 < b div 2" using lo by simp
  have j0: "0 \<le> r mod (b div 2)" and j1: "r mod (b div 2) < b div 2"
    using pos by simp_all
  have "int64 (b + r mod (b div 2)) = b + r mod (b div 2)"
    using lo hi j0 j1 by (intro int64_id) linarith+
  then show ?thesis
    using pos j0 j1 by (simp add: Intn_def d)
qed

text \<open>
  Claim C9, as the code has it.  In \<^verbatim>\<open>performTransfer\<close>, after a conflict in attempt
  \<open>retry\<close> below 14 the client sleeps \<open>min (20 ms * 2 ^ retry) (2 s)\<close> plus a jitter that is
  at least 0 and less than half of that; in the last attempt, 14, it does not sleep.  In
  \<^verbatim>\<open>checkTotalBalance\<close>, after a conflict in any of its attempts \<open>retry\<close> below 10 the
  client sleeps \<open>50 ms * 2 ^ retry\<close>, with no cap, plus a jitter that is at least 0 and less
  than half of that.
\<close>

theorem retry_delay:
  "(retry < 14 \<longrightarrow>
      (\<exists>jitter. transfer_sleep retry r =
                  Ok (Some (min (20 * 2 ^ retry * Millisecond) (2 * Second) + jitter)) \<and>
                0 \<le> jitter \<and>
                jitter < min (20 * 2 ^ retry * Millisecond) (2 * Second) div 2))
   \<and> (14 \<le> retry \<longrightarrow> transfer_sleep retry r = Ok None)
   \<and> (retry < 10 \<longrightarrow>
      (\<exists>jitter. check_sleep retry r = Ok (50 * 2 ^ retry * Millisecond + jitter) \<and>
                0 \<le> jitter \<and> jitter < 50 * 2 ^ retry * Millisecond div 2))"
proof (intro conjI impI)
  assume r: "retry < 14"
  let ?b = "min (20 * 2 ^ retry * Millisecond) (2 * Second)"
  have p: "(1::int) \<le> 2 ^ retry" by simp
  have lo: "2 \<le> ?b" unfolding Millisecond_def Second_def using p by linarith
  have hi: "?b < 4611686018427387904" unfolding Millisecond_def Second_def by linarith
  from sleep_jitter [OF lo hi, of r] show
    "\<exists>jitter. transfer_sleep retry r = Ok (Some (?b + jitter)) \<and> 0 \<le> jitter \<and> jitter < ?b div 2"
    using r by (auto simp: transfer_sleep_def transfer_backoffTime_eq [OF r] Let_def)
next
  assume "14 \<le> retry"
  then show "transfer_sleep retry r = Ok None" by (simp add: transfer_sleep_def)
next
  assume r: "retry < 10"
  let ?b = "50 * 2 ^ retry * Millisecond"
  have p: "(1::int) \<le> 2 ^ retry" by simp
  have b: "(2::int) ^ retry \<le> 512"
    using power_increasing [of retry 9 "2::int"] r by simp
  have lo: "2 \<le> ?b" unfolding Millisecond_def using p by linarith
  have hi: "?b < 4611686018427387904" unfolding Millisecond_def using b by linarith
  from sleep_jitter [OF lo hi, of r] show
    "\<exists>jitter. check_sleep retry r = Ok (?b + jitter) \<and> 0 \<le> jitter \<and> jitter < ?b div 2"
    by (auto simp: check_sleep_def check_backoffTime_eq [OF r] Let_def)
qed

theorem retry_delay_witness:
  "transfer_sleep 3 5 = Ok (Some (160 * Millisecond + 5))
   \<and> transfer_sleep 10 0 = Ok (Some (2 * Second))
   \<and> transfer_sleep 14 5 = Ok None
   \<and> check_sleep 2 7 = Ok (200 * Millisecond + 7)"
  using retry_delay [of 3 5] retry_delay [of 10 0] retry_delay [of 14 5] retry_delay [of 2 7]
  by (simp add: transfer_sleep_def transfer_backoffTime_def check_sleep_def check_backoffTime_def
      shl1_def int64_def Intn_def Millisecond_def Second_def signed_divide_int_def)

text \<open>
  The balance check has no cap: in attempt 6 with the draw 0 it sleeps 3200 ms, more than
  the 2 s cap plus the largest jitter on it.
\<close>

theorem check_delay_uncapped:
  "check_sleep 6 0 = Ok (3200 * Millisecond) \<and>
   min (50 * 2 ^ 6 * Millisecond) (2 * Second) + min (50 * 2 ^ 6 * Millisecond) (2 * Second) div 2
     \<le> 3200 * Millisecond"
  by (simp add: check_sleep_def check_backoffTime_def shl1_def int64_def Intn_def
      Millisecond_def Second_def signed_divide_int_def)

end
